theory Spec2Isabelle
  imports Main "HOL-Library.AList"
begin

section \<open>Shared constants and JavaScript helpers\<close>

text \<open>
  The repository holds two Express servers. \<open>server.js\<close> is the clustered variant
  (schools are split into clusters of at most ten devices), the second source file is the
  flat variant (one device list per school). Both keep the whole state in the
  module-level object \<open>schoolData\<close>, a plain JavaScript object used as a dictionary
  keyed by the caller's \<open>schoolCode\<close>.

  Numbers are modelled by unbounded \<open>nat\<close> and \<open>int\<close>: every counter of the source
  starts at 0 and moves by device counts, so it stays far below \<open>2 ^ 53\<close>, where
  JavaScript's arithmetic on integers is exact. \<open>saveData\<close> writes a snapshot and swallows
  its own failures; it never touches \<open>schoolData\<close> and is left out.
\<close>

definition MAX_DEVICES_PER_CLUSTER :: nat where
  "MAX_DEVICES_PER_CLUSTER = 10"

definition MAX_HOSTS_PER_CLUSTER :: nat where
  "MAX_HOSTS_PER_CLUSTER = 3"

definition FREQUENCY_CHANNELS :: "nat list" where
  "FREQUENCY_CHANNELS =
     [5180, 5200, 5220, 5240, 5260, 5280, 5300, 5320,
      5500, 5520, 5540, 5560, 5580, 5600, 5620, 5640,
      5660, 5680, 5700, 5720, 5745, 5765, 5785, 5805, 5825]"

text \<open>
  \<open>getRandomFrequency\<close> reads \<open>FREQUENCY_CHANNELS[Math.floor(Math.random() * 25)]\<close>.
  \<open>Math.random()\<close> lies in \<open>[0, 1)\<close>, so the index takes each value \<open>0..24\<close> and
  no other. The random draw is an input \<open>rnd\<close> of the request; \<open>rnd mod 25\<close> is the index.
\<close>

definition getRandomFrequency :: "nat \<Rightarrow> nat" where
  "getRandomFrequency rnd = FREQUENCY_CHANNELS ! (rnd mod length FREQUENCY_CHANNELS)"

text \<open>
  The clock is an input \<open>now\<close> of the request. The clustered handler reads
  \<open>new Date()\<close> twice when it creates a cluster and registers its first device
  (\<open>createdAt\<close>, then \<open>registeredAt\<close>); the model uses one reading for both. The
  timestamps are stored and reported only, no branch of either server depends on them.
\<close>

type_synonym timestamp = nat

datatype error =
    ValidationError      \<comment> \<open>400, School code and device ID are required\<close>
  | SchoolNotFound       \<comment> \<open>404, School not found\<close>
  | ClusterNotFound      \<comment> \<open>404, Cluster not found\<close>
  | InternalError        \<comment> \<open>500, the handler's catch block\<close>

fun status :: "error \<Rightarrow> nat" where
  "status ValidationError = 400"
| "status SchoolNotFound = 404"
| "status ClusterNotFound = 404"
| "status InternalError = 500"

datatype role = host1 | host2 | host3 | client

subsection \<open>Property lookup on a plain object\<close>

text \<open>
  \<open>schoolData[schoolCode]\<close> and \<open>school.clusters[clusterName]\<close> are property reads on
  objects created by \<open>{}\<close> or \<open>JSON.parse\<close>, whose prototype is \<open>Object.prototype\<close>.
  A read finds the object's own property first and the prototype's otherwise.
  \<open>Object.prototype\<close> carries the accessor \<open>__proto__\<close> (it returns \<open>Object.prototype\<close>
  itself here) and eleven functions; all of them are truthy. The only place where the
  source can write to \<open>Object.prototype\<close> is \<open>school.lastClusterNumber += 1\<close> with
  \<open>school = schoolData["__proto__"]\<close>; it stores \<open>undefined + 1 = NaN\<close> as an enumerable
  property that every object inherits from then on. The flag \<open>polluted\<close> records it.
\<close>

datatype 'a property =
    Own 'a                \<comment> \<open>an own property, stored by this program\<close>
  | Object_prototype      \<comment> \<open>the value of the inherited accessor \<open>__proto__\<close>\<close>
  | Builtin_function      \<comment> \<open>an inherited method such as \<open>constructor\<close>\<close>
  | Inherited_NaN         \<comment> \<open>\<open>lastClusterNumber\<close> inherited from a polluted prototype\<close>
  | Undefined

definition Object_prototype_functions :: "string list" where
  "Object_prototype_functions =
     [''constructor'', ''__defineGetter__'', ''__defineSetter__'', ''hasOwnProperty'',
      ''__lookupGetter__'', ''__lookupSetter__'', ''isPrototypeOf'',
      ''propertyIsEnumerable'', ''toString'', ''valueOf'', ''toLocaleString'']"

definition getProperty :: "bool \<Rightarrow> (string \<rightharpoonup> 'a) \<Rightarrow> string \<Rightarrow> 'a property" where
  "getProperty polluted own k =
     (case own k of
        Some v \<Rightarrow> Own v
      | None \<Rightarrow>
          if k = ''__proto__'' then Object_prototype
          else if k \<in> set Object_prototype_functions then Builtin_function
          else if polluted \<and> k = ''lastClusterNumber'' then Inherited_NaN
          else Undefined)"

fun truthy :: "'a property \<Rightarrow> bool" where
  "truthy (Own v) = True"
| "truthy Object_prototype = True"
| "truthy Builtin_function = True"
| "truthy Inherited_NaN = False"
| "truthy Undefined = False"

text \<open>
  A field of the JSON body, restricted to the values the specification ranges over: absent
  (\<open>None\<close>) or a string. \<open>!v\<close> is true for an absent field and for the empty string.
\<close>

definition falsy :: "string option \<Rightarrow> bool" where
  "falsy v = (case v of None \<Rightarrow> True | Some s \<Rightarrow> s = [])"

text \<open>\<open>xs[i]\<close> on an array: \<open>undefined\<close> (here \<open>None\<close>) out of range, never an exception.\<close>

definition at_index :: "'a list \<Rightarrow> nat \<Rightarrow> 'a option" where
  "at_index xs i = (if i < length xs then Some (xs ! i) else None)"

text \<open>\<open>v || null\<close> on a string or \<open>undefined\<close>: \<open>null\<close> (here \<open>None\<close>) for a falsy \<open>v\<close>.\<close>

definition or_null :: "string option \<Rightarrow> string option" where
  "or_null v = (if falsy v then None else v)"

text \<open>\<open>Array.prototype.findIndex\<close>: the first index whose element passes, \<open>-1\<close> if none.\<close>

fun findIndex :: "('a \<Rightarrow> bool) \<Rightarrow> 'a list \<Rightarrow> int" where
  "findIndex P [] = -1"
| "findIndex P (x # xs) =
     (if P x then 0 else (let i = findIndex P xs in if i = -1 then -1 else i + 1))"

text \<open>\<open>String(n)\<close> for a non-negative integer: its decimal digits.\<close>

definition digit_char :: "nat \<Rightarrow> char" where
  "digit_char d = ''0123456789'' ! d"

fun show_nat :: "nat \<Rightarrow> string" where
  "show_nat n = (if n < 10 then [digit_char n] else show_nat (n div 10) @ [digit_char (n mod 10)])"

declare show_nat.simps [simp del]

subsection \<open>Devices, hosts and the role table\<close>

record device =
  deviceId :: string
  registeredAt :: timestamp

text \<open>
  Both handlers derive the role from \<open>deviceIndex\<close> with the same chain of comparisons;
  the three slots are \<open>hostDeviceId\<close>, \<open>host2DeviceId\<close> and \<open>host3DeviceId\<close>, a slot the
  branch does not assign or assigns \<open>undefined\<close> is absent from the JSON (\<open>None\<close>).
\<close>

record role_fields =
  hostDeviceId :: "string option"
  host2DeviceId :: "string option"
  host3DeviceId :: "string option"
  role :: role

definition derive_role :: "int \<Rightarrow> string \<Rightarrow> string list \<Rightarrow> role_fields" where
  "derive_role deviceIndex dev hs =
     (if deviceIndex = 0 then
        \<lparr>hostDeviceId = Some dev, host2DeviceId = None, host3DeviceId = None, role = host1\<rparr>
      else if deviceIndex = 1 then
        \<lparr>hostDeviceId = at_index hs 0, host2DeviceId = Some dev, host3DeviceId = None,
         role = host2\<rparr>
      else if deviceIndex = 2 then
        \<lparr>hostDeviceId = at_index hs 0, host2DeviceId = at_index hs 1,
         host3DeviceId = Some dev, role = host3\<rparr>
      else
        \<lparr>hostDeviceId = at_index hs 0, host2DeviceId = at_index hs 1,
         host3DeviceId = at_index hs 2, role = client\<rparr>)"

record host_slots =
  slot_host1 :: "string option"
  slot_host2 :: "string option"
  slot_host3 :: "string option"

definition all_hosts :: "string list \<Rightarrow> host_slots" where
  "all_hosts hs =
     \<lparr>slot_host1 = or_null (at_index hs 0),
      slot_host2 = or_null (at_index hs 1),
      slot_host3 = or_null (at_index hs 2)\<rparr>"


definition role_message :: "role \<Rightarrow> string" where
  "role_message r =
     (case r of
        host1 \<Rightarrow> ''You are the primary host''
      | host2 \<Rightarrow> ''You are the secondary host''
      | host3 \<Rightarrow> ''You are the tertiary host''
      | client \<Rightarrow> ''You are a client device'')"

section \<open>The clustered variant\<close>

subsection \<open>State\<close>

record cluster =
  clusterNumber :: nat
  devices :: "device list"
  hosts :: "string list"
  frequency :: nat
  createdAt :: timestamp

text \<open>
  \<open>school.clusters\<close> is an object whose keys \<open>{schoolCode}_{n}\<close> are never integer-like,
  so \<open>for ... in\<close> visits its own keys in insertion order: an association list, new keys
  at the end (\<open>AList.update\<close>), a deleted key removed (\<open>AList.delete\<close>).
\<close>

record school =
  clusters :: "(string \<times> cluster) list"
  totalDevices :: int
  lastClusterNumber :: nat

record server_state =
  schoolData :: "string \<rightharpoonup> school"
  polluted :: bool

definition empty_state :: server_state where
  "empty_state = \<lparr>schoolData = Map.empty, polluted = False\<rparr>"

subsection \<open>findOrCreateCluster\<close>

definition has_device :: "cluster \<Rightarrow> string \<Rightarrow> bool" where
  "has_device c dev = (List.find (\<lambda>d. deviceId d = dev) (devices c) \<noteq> None)"

text \<open>
  The function returns \<open>{clusterName, cluster, isExisting}\<close> or throws a \<open>TypeError\<close>; what
  it wrote before throwing stays written, so the state is returned in both cases.
  \<^item> A \<open>schoolCode\<close> that names an inherited property is truthy: no school is created, and
    \<open>school.clusters\<close> is \<open>undefined\<close>. Both loops are skipped (\<open>for ... in undefined\<close> runs
    no iteration), \<open>school.lastClusterNumber += 1\<close> stores \<open>NaN\<close> on the inherited object,
    and \<open>school.clusters[newClusterName] = ...\<close> throws.
  \<^item> Once \<open>Object.prototype\<close> carries the enumerable \<open>lastClusterNumber\<close>, the first loop
    visits that key after the own ones: \<open>cluster\<close> is \<open>NaN\<close>, \<open>cluster.devices\<close> is
    \<open>undefined\<close> and \<open>.find\<close> throws.
\<close>

definition findOrCreateCluster ::
  "server_state \<Rightarrow> string \<Rightarrow> string \<Rightarrow> nat \<Rightarrow> timestamp
     \<Rightarrow> server_state \<times> (error + string \<times> cluster \<times> bool)" where
  "findOrCreateCluster s schoolCode dev rnd now =
     (let s1 = (if \<not> truthy (getProperty (polluted s) (schoolData s) schoolCode)
                then s\<lparr>schoolData := (schoolData s)(schoolCode \<mapsto>
                       \<lparr>clusters = [], totalDevices = 0, lastClusterNumber = 0\<rparr>)\<rparr>
                else s)
      in case getProperty (polluted s1) (schoolData s1) schoolCode of
           Own school \<Rightarrow>
             (case List.find (\<lambda>(nm, c). has_device c dev) (clusters school) of
                Some (nm, c) \<Rightarrow> (s1, Inr (nm, c, True))
              | None \<Rightarrow>
                  if polluted s1 then (s1, Inl InternalError)
                  else
                    (case List.find (\<lambda>(nm, c). length (devices c) < MAX_DEVICES_PER_CLUSTER)
                            (clusters school) of
                       Some (nm, c) \<Rightarrow> (s1, Inr (nm, c, False))
                     | None \<Rightarrow>
                         (let n = lastClusterNumber school + 1;
                              newClusterName = schoolCode @ ''_'' @ show_nat n;
                              c = \<lparr>clusterNumber = n, devices = [], hosts = [],
                                   frequency = getRandomFrequency rnd, createdAt = now\<rparr>;
                              school' = school\<lparr>lastClusterNumber := n,
                                clusters := AList.update newClusterName c (clusters school)\<rparr>
                          in (s1\<lparr>schoolData := (schoolData s1)(schoolCode \<mapsto> school')\<rparr>,
                              Inr (newClusterName, c, False)))))
         | Object_prototype \<Rightarrow> (s1\<lparr>polluted := True\<rparr>, Inl InternalError)
         | Builtin_function \<Rightarrow> (s1, Inl InternalError)
         | Inherited_NaN \<Rightarrow> (s1, Inl InternalError)
         | Undefined \<Rightarrow> (s1, Inl InternalError))"

subsection \<open>POST /api/get-hosts\<close>

record placement_response =
  res_schoolCode :: string
  res_clusterName :: string
  res_clusterNumber :: nat
  res_deviceId :: string
  positionInCluster :: int
  totalDevicesInCluster :: nat
  totalDevicesInSchool :: int
  maxDevicesPerCluster :: nat
  res_frequency :: nat
  res_role :: role_fields
  res_message :: string
  clusterHosts :: host_slots
  clusterDevices :: "string list"

definition add_device :: "cluster \<Rightarrow> string \<Rightarrow> timestamp \<Rightarrow> cluster" where
  "add_device c dev now =
     (let c1 = c\<lparr>devices := devices c @ [\<lparr>deviceId = dev, registeredAt = now\<rparr>]\<rparr>
      in if length (hosts c1) < MAX_HOSTS_PER_CLUSTER then c1\<lparr>hosts := hosts c1 @ [dev]\<rparr>
         else c1)"

definition cluster_message :: "role \<Rightarrow> string \<Rightarrow> string" where
  "cluster_message r nm =
     role_message r @ (if r = client then '' in cluster '' else '' for cluster '') @ nm"

text \<open>
  The response, built from the resolved cluster after the insertion: the position of the
  device in \<open>cluster.devices\<close>, the role fields and the three host slots.
\<close>

definition compose_response ::
  "string \<Rightarrow> string \<Rightarrow> string \<Rightarrow> cluster \<Rightarrow> int \<Rightarrow> placement_response" where
  "compose_response schoolCode dev clusterName c schoolTotal =
     (let deviceIndex = findIndex (\<lambda>d. deviceId d = dev) (devices c);
          rf = derive_role deviceIndex dev (hosts c)
      in \<lparr>res_schoolCode = schoolCode,
          res_clusterName = clusterName,
          res_clusterNumber = clusterNumber c,
          res_deviceId = dev,
          positionInCluster = deviceIndex + 1,
          totalDevicesInCluster = length (devices c),
          totalDevicesInSchool = schoolTotal,
          maxDevicesPerCluster = MAX_DEVICES_PER_CLUSTER,
          res_frequency = frequency c,
          res_role = rf,
          res_message = cluster_message (role rf) clusterName,
          clusterHosts = all_hosts (hosts c),
          clusterDevices = map deviceId (devices c)\<rparr>)"

text \<open>
  The handler after validation. \<open>cluster\<close> is the object stored under \<open>clusterName\<close>, so
  pushing to \<open>cluster.devices\<close> and \<open>cluster.hosts\<close> changes the stored cluster; the model
  writes the changed cluster back under its name. Every exception ends in the \<open>catch\<close>
  block, which answers 500.
\<close>

definition placeDevice ::
  "server_state \<Rightarrow> string \<Rightarrow> string \<Rightarrow> nat \<Rightarrow> timestamp
     \<Rightarrow> server_state \<times> (error + placement_response)" where
  "placeDevice s schoolCode dev rnd now =
     (case findOrCreateCluster s schoolCode dev rnd now of
        (s1, Inl e) \<Rightarrow> (s1, Inl InternalError)
      | (s1, Inr (clusterName, c0, isExisting)) \<Rightarrow>
          (case schoolData s1 schoolCode of
             None \<Rightarrow> (s1, Inl InternalError)
           | Some school0 \<Rightarrow>
               (let c = (if \<not> isExisting then add_device c0 dev now else c0);
                    school = (if \<not> isExisting
                              then school0\<lparr>clusters := AList.update clusterName c (clusters school0),
                                     totalDevices := totalDevices school0 + 1\<rparr>
                              else school0);
                    s2 = (if \<not> isExisting
                          then s1\<lparr>schoolData := (schoolData s1)(schoolCode \<mapsto> school)\<rparr>
                          else s1)
                in (s2, Inr (compose_response schoolCode dev clusterName c (totalDevices school))))))"

definition post_get_hosts ::
  "server_state \<Rightarrow> string option \<Rightarrow> string option \<Rightarrow> nat \<Rightarrow> timestamp
     \<Rightarrow> server_state \<times> (error + placement_response)" where
  "post_get_hosts s schoolCode dev rnd now =
     (if falsy schoolCode \<or> falsy dev then (s, Inl ValidationError)
      else
        (case (schoolCode, dev) of
           (Some sc, Some d) \<Rightarrow> placeDevice s sc d rnd now
         | _ \<Rightarrow> (s, Inl ValidationError)))"

subsection \<open>Queries and resets\<close>

record cluster_summary =
  sum_clusterNumber :: nat
  sum_totalDevices :: nat
  sum_hosts :: "string list"
  sum_devices :: "string list"
  sum_isFull :: bool
  sum_createdAt :: timestamp
  sum_frequency :: nat

record school_summary =
  ss_schoolCode :: string
  ss_totalDevices :: int
  ss_totalClusters :: nat
  ss_lastClusterNumber :: nat
  ss_maxDevicesPerCluster :: nat
  ss_clusters :: "(string \<times> cluster_summary) list"

definition summarize :: "cluster \<Rightarrow> cluster_summary" where
  "summarize c =
     \<lparr>sum_clusterNumber = clusterNumber c,
      sum_totalDevices = length (devices c),
      sum_hosts = hosts c,
      sum_devices = map deviceId (devices c),
      sum_isFull = (length (devices c) \<ge> MAX_DEVICES_PER_CLUSTER),
      sum_createdAt = createdAt c,
      sum_frequency = frequency c\<rparr>"

text \<open>
  \<open>GET /api/school/:schoolCode\<close>. For an inherited \<open>schoolCode\<close>,
  \<open>Object.keys(school.clusters)\<close> throws on \<open>undefined\<close>; with a polluted prototype the
  summary loop reaches the inherited key and \<open>cluster.devices.length\<close> throws.
\<close>

definition get_school :: "server_state \<Rightarrow> string \<Rightarrow> error + school_summary" where
  "get_school s schoolCode =
     (let p = getProperty (polluted s) (schoolData s) schoolCode
      in if \<not> truthy p then Inl SchoolNotFound
         else
           (case p of
              Own school \<Rightarrow>
                if polluted s then Inl InternalError
                else Inr
                  \<lparr>ss_schoolCode = schoolCode,
                   ss_totalDevices = totalDevices school,
                   ss_totalClusters = length (clusters school),
                   ss_lastClusterNumber = lastClusterNumber school,
                   ss_maxDevicesPerCluster = MAX_DEVICES_PER_CLUSTER,
                   ss_clusters = map (\<lambda>(nm, c). (nm, summarize c)) (clusters school)\<rparr>
            | _ \<Rightarrow> Inl InternalError))"

record cluster_detail =
  cd_schoolCode :: string
  cd_clusterName :: string
  cd_clusterNumber :: nat
  cd_totalDevices :: nat
  cd_maxDevices :: nat
  cd_isFull :: bool
  cd_hosts :: "string list"
  cd_devices :: "device list"
  cd_createdAt :: timestamp
  cd_frequency :: nat

text \<open>
  \<open>GET /api/school/:schoolCode/cluster/:clusterNumber\<close>. The path parameter is a string;
  the cluster is looked up under \<open>`${schoolCode}_${clusterNumber}`\<close>.
\<close>

definition get_cluster :: "server_state \<Rightarrow> string \<Rightarrow> string \<Rightarrow> error + cluster_detail" where
  "get_cluster s schoolCode clusterNumberParam =
     (let p = getProperty (polluted s) (schoolData s) schoolCode
      in if \<not> truthy p then Inl SchoolNotFound
         else
           (case p of
              Own school \<Rightarrow>
                (let clusterName = schoolCode @ ''_'' @ clusterNumberParam;
                     q = getProperty (polluted s) (map_of (clusters school)) clusterName
                 in if \<not> truthy q then Inl ClusterNotFound
                    else
                      (case q of
                         Own c \<Rightarrow> Inr
                           \<lparr>cd_schoolCode = schoolCode,
                            cd_clusterName = clusterName,
                            cd_clusterNumber = clusterNumber c,
                            cd_totalDevices = length (devices c),
                            cd_maxDevices = MAX_DEVICES_PER_CLUSTER,
                            cd_isFull = (length (devices c) \<ge> MAX_DEVICES_PER_CLUSTER),
                            cd_hosts = hosts c,
                            cd_devices = devices c,
                            cd_createdAt = createdAt c,
                            cd_frequency = frequency c\<rparr>
                       | _ \<Rightarrow> Inl InternalError))
            | _ \<Rightarrow> Inl InternalError))"

text \<open>
  \<open>DELETE /api/school/:schoolCode\<close>: \<open>delete schoolData[schoolCode]\<close> removes an own
  property and does nothing for an inherited one; the handler answers 200 in both cases.
\<close>

definition delete_school :: "server_state \<Rightarrow> string \<Rightarrow> server_state \<times> (error + string)" where
  "delete_school s schoolCode =
     (if truthy (getProperty (polluted s) (schoolData s) schoolCode)
      then (s\<lparr>schoolData := (schoolData s)(schoolCode := None)\<rparr>,
            Inr (''School '' @ schoolCode @ '' data reset successfully''))
      else (s, Inl SchoolNotFound))"

text \<open>\<open>DELETE /api/school/:schoolCode/cluster/:clusterNumber\<close>.\<close>

definition delete_cluster ::
  "server_state \<Rightarrow> string \<Rightarrow> string \<Rightarrow> server_state \<times> (error + string)" where
  "delete_cluster s schoolCode clusterNumberParam =
     (let p = getProperty (polluted s) (schoolData s) schoolCode
      in if \<not> truthy p then (s, Inl SchoolNotFound)
         else
           (case p of
              Own school \<Rightarrow>
                (let clusterName = schoolCode @ ''_'' @ clusterNumberParam;
                     q = getProperty (polluted s) (map_of (clusters school)) clusterName
                 in if \<not> truthy q then (s, Inl ClusterNotFound)
                    else
                      (case q of
                         Own c \<Rightarrow>
                           (s\<lparr>schoolData := (schoolData s)(schoolCode \<mapsto>
                                school\<lparr>totalDevices := totalDevices school - int (length (devices c)),
                                       clusters := AList.delete clusterName (clusters school)\<rparr>)\<rparr>,
                            Inr (''Cluster '' @ clusterName @ '' reset successfully''))
                       | _ \<Rightarrow> (s, Inl InternalError)))
            | _ \<Rightarrow> (s, Inl InternalError)))"

subsection \<open>The server as a transition system\<close>

datatype request =
    PostGetHosts "string option" "string option" nat timestamp
  | GetSchool string
  | GetCluster string string
  | DeleteSchool string
  | DeleteCluster string string
  | GetHealth

datatype response =
    Placement placement_response
  | SchoolSummary school_summary
  | ClusterDetail cluster_detail
  | Message string
  | Health nat nat

fun handle :: "server_state \<Rightarrow> request \<Rightarrow> server_state \<times> (error + response)" where
  "handle s (PostGetHosts schoolCode dev rnd now) =
     (case post_get_hosts s schoolCode dev rnd now of
        (s', Inl e) \<Rightarrow> (s', Inl e) | (s', Inr r) \<Rightarrow> (s', Inr (Placement r)))"
| "handle s (GetSchool schoolCode) =
     (case get_school s schoolCode of Inl e \<Rightarrow> (s, Inl e) | Inr r \<Rightarrow> (s, Inr (SchoolSummary r)))"
| "handle s (GetCluster schoolCode n) =
     (case get_cluster s schoolCode n of Inl e \<Rightarrow> (s, Inl e) | Inr r \<Rightarrow> (s, Inr (ClusterDetail r)))"
| "handle s (DeleteSchool schoolCode) =
     (case delete_school s schoolCode of
        (s', Inl e) \<Rightarrow> (s', Inl e) | (s', Inr m) \<Rightarrow> (s', Inr (Message m)))"
| "handle s (DeleteCluster schoolCode n) =
     (case delete_cluster s schoolCode n of
        (s', Inl e) \<Rightarrow> (s', Inl e) | (s', Inr m) \<Rightarrow> (s', Inr (Message m)))"
| "handle s GetHealth = (s, Inr (Health MAX_DEVICES_PER_CLUSTER MAX_HOSTS_PER_CLUSTER))"

definition run :: "server_state \<Rightarrow> request list \<Rightarrow> server_state" where
  "run s rs = foldl (\<lambda>s r. fst (handle s r)) s rs"

inductive reachable :: "server_state \<Rightarrow> bool" where
  reachable_empty: "reachable empty_state"
| reachable_handle: "reachable s \<Longrightarrow> reachable (fst (handle s r))"


section \<open>The flat variant\<close>

text \<open>
  One device list and one host list per school, no capacity bound. The handler never
  writes to an inherited object (it throws on \<open>school.devices.findIndex\<close> first), so
  \<open>Object.prototype\<close> stays as it is and the state is the dictionary alone.
\<close>

record flat_school =
  school_devices :: "device list"
  school_hosts :: "string list"

record flat_state =
  flat_schoolData :: "string \<rightharpoonup> flat_school"

definition flat_empty_state :: flat_state where
  "flat_empty_state = \<lparr>flat_schoolData = Map.empty\<rparr>"

record flat_response =
  fr_schoolCode :: string
  fr_deviceId :: string
  fr_position :: int
  fr_totalDevices :: nat
  fr_role :: role_fields
  fr_message :: string
  fr_hosts :: host_slots

definition flat_compose_response :: "string \<Rightarrow> string \<Rightarrow> flat_school \<Rightarrow> flat_response" where
  "flat_compose_response schoolCode dev school =
     (let deviceIndex = findIndex (\<lambda>d. deviceId d = dev) (school_devices school);
          rf = derive_role deviceIndex dev (school_hosts school)
      in \<lparr>fr_schoolCode = schoolCode,
          fr_deviceId = dev,
          fr_position = deviceIndex + 1,
          fr_totalDevices = length (school_devices school),
          fr_role = rf,
          fr_message = role_message (role rf),
          fr_hosts = all_hosts (school_hosts school)\<rparr>)"

definition flat_add_device :: "flat_school \<Rightarrow> string \<Rightarrow> timestamp \<Rightarrow> flat_school" where
  "flat_add_device school dev now =
     (let sch1 = school\<lparr>school_devices :=
                   school_devices school @ [\<lparr>deviceId = dev, registeredAt = now\<rparr>]\<rparr>
      in if length (school_hosts sch1) < 3
         then sch1\<lparr>school_hosts := school_hosts sch1 @ [dev]\<rparr>
         else sch1)"

definition flat_placeDevice ::
  "flat_state \<Rightarrow> string \<Rightarrow> string \<Rightarrow> timestamp \<Rightarrow> flat_state \<times> (error + flat_response)" where
  "flat_placeDevice s schoolCode dev now =
     (let s1 = (if \<not> truthy (getProperty False (flat_schoolData s) schoolCode)
                then s\<lparr>flat_schoolData := (flat_schoolData s)(schoolCode \<mapsto>
                       \<lparr>school_devices = [], school_hosts = []\<rparr>)\<rparr>
                else s)
      in case getProperty False (flat_schoolData s1) schoolCode of
           Own school0 \<Rightarrow>
             (let existingDeviceIndex = findIndex (\<lambda>d. deviceId d = dev) (school_devices school0);
                  school = (if existingDeviceIndex = -1 then flat_add_device school0 dev now
                            else school0);
                  s2 = (if existingDeviceIndex = -1
                        then s1\<lparr>flat_schoolData := (flat_schoolData s1)(schoolCode \<mapsto> school)\<rparr>
                        else s1)
              in (s2, Inr (flat_compose_response schoolCode dev school)))
         | _ \<Rightarrow> (s1, Inl InternalError))"

definition flat_post_get_hosts ::
  "flat_state \<Rightarrow> string option \<Rightarrow> string option \<Rightarrow> timestamp
     \<Rightarrow> flat_state \<times> (error + flat_response)" where
  "flat_post_get_hosts s schoolCode dev now =
     (if falsy schoolCode \<or> falsy dev then (s, Inl ValidationError)
      else
        (case (schoolCode, dev) of
           (Some sc, Some d) \<Rightarrow> flat_placeDevice s sc d now
         | _ \<Rightarrow> (s, Inl ValidationError)))"

record flat_summary =
  fsum_schoolCode :: string
  fsum_totalDevices :: nat
  fsum_hosts :: "string list"
  fsum_devices :: "device list"

definition flat_get_school :: "flat_state \<Rightarrow> string \<Rightarrow> error + flat_summary" where
  "flat_get_school s schoolCode =
     (let p = getProperty False (flat_schoolData s) schoolCode
      in if \<not> truthy p then Inl SchoolNotFound
         else
           (case p of
              Own school \<Rightarrow> Inr
                \<lparr>fsum_schoolCode = schoolCode,
                 fsum_totalDevices = length (school_devices school),
                 fsum_hosts = school_hosts school,
                 fsum_devices = school_devices school\<rparr>
            | _ \<Rightarrow> Inl InternalError))"

definition flat_delete_school :: "flat_state \<Rightarrow> string \<Rightarrow> flat_state \<times> (error + string)" where
  "flat_delete_school s schoolCode =
     (if truthy (getProperty False (flat_schoolData s) schoolCode)
      then (s\<lparr>flat_schoolData := (flat_schoolData s)(schoolCode := None)\<rparr>,
            Inr (''School '' @ schoolCode @ '' data reset successfully''))
      else (s, Inl SchoolNotFound))"

datatype flat_request =
    FlatPostGetHosts "string option" "string option" timestamp
  | FlatGetSchool string
  | FlatDeleteSchool string
  | FlatGetHealth
  | FlatPing

datatype flat_reply =
    FlatPlacement flat_response
  | FlatSummary flat_summary
  | FlatMessage string

fun flat_handle :: "flat_state \<Rightarrow> flat_request \<Rightarrow> flat_state \<times> (error + flat_reply)" where
  "flat_handle s (FlatPostGetHosts schoolCode dev now) =
     (case flat_post_get_hosts s schoolCode dev now of
        (s', Inl e) \<Rightarrow> (s', Inl e) | (s', Inr r) \<Rightarrow> (s', Inr (FlatPlacement r)))"
| "flat_handle s (FlatGetSchool schoolCode) =
     (case flat_get_school s schoolCode of
        Inl e \<Rightarrow> (s, Inl e) | Inr r \<Rightarrow> (s, Inr (FlatSummary r)))"
| "flat_handle s (FlatDeleteSchool schoolCode) =
     (case flat_delete_school s schoolCode of
        (s', Inl e) \<Rightarrow> (s', Inl e) | (s', Inr m) \<Rightarrow> (s', Inr (FlatMessage m)))"
| "flat_handle s FlatGetHealth = (s, Inr (FlatMessage ''Server is running''))"
| "flat_handle s FlatPing = (s, Inr (FlatMessage ''Pong''))"

definition flat_run :: "flat_state \<Rightarrow> flat_request list \<Rightarrow> flat_state" where
  "flat_run s rs = foldl (\<lambda>s r. fst (flat_handle s r)) s rs"

inductive flat_reachable :: "flat_state \<Rightarrow> bool" where
  flat_reachable_empty: "flat_reachable flat_empty_state"
| flat_reachable_handle: "flat_reachable s \<Longrightarrow> flat_reachable (fst (flat_handle s r))"

text \<open>The replies a client sees when the requests are served one after the other.\<close>

fun replies :: "server_state \<Rightarrow> request list \<Rightarrow> (error + response) list" where
  "replies s [] = []"
| "replies s (r # rs) = snd (handle s r) # replies (fst (handle s r)) rs"

fun flat_replies :: "flat_state \<Rightarrow> flat_request list \<Rightarrow> (error + flat_reply) list" where
  "flat_replies s [] = []"
| "flat_replies s (r # rs) = snd (flat_handle s r) # flat_replies (fst (flat_handle s r)) rs"

fun placement_of :: "error + response \<Rightarrow> placement_response option" where
  "placement_of (Inr (Placement r)) = Some r"
| "placement_of _ = None"

fun flat_placement_of :: "error + flat_reply \<Rightarrow> flat_response option" where
  "flat_placement_of (Inr (FlatPlacement r)) = Some r"
| "flat_placement_of _ = None"

section \<open>Scenarios, invariants and auxiliary notions\<close>

definition scenario :: "nat \<Rightarrow> timestamp \<Rightarrow> timestamp \<Rightarrow> timestamp \<Rightarrow> request list" where
  "scenario rnd t1 t2 t3 =
     [PostGetHosts (Some ''ABC'') (Some ''d1'') rnd t1,
      PostGetHosts (Some ''ABC'') (Some ''d2'') rnd t2,
      PostGetHosts (Some ''ABC'') (Some ''d4'') rnd t3]"

definition flat_scenario :: "timestamp \<Rightarrow> timestamp \<Rightarrow> timestamp \<Rightarrow> flat_request list" where
  "flat_scenario t1 t2 t3 =
     [FlatPostGetHosts (Some ''ABC'') (Some ''d1'') t1,
      FlatPostGetHosts (Some ''ABC'') (Some ''d2'') t2,
      FlatPostGetHosts (Some ''ABC'') (Some ''d4'') t3]"

definition new_school :: school where
  "new_school = \<lparr>clusters = [], totalDevices = 0, lastClusterNumber = 0\<rparr>"

definition current_school :: "server_state \<Rightarrow> string \<Rightarrow> school" where
  "current_school s sc = (case schoolData s sc of Some school \<Rightarrow> school | None \<Rightarrow> new_school)"

definition inherited_name :: "string \<Rightarrow> bool" where
  "inherited_name k \<longleftrightarrow> k = ''__proto__'' \<or> k \<in> set Object_prototype_functions"

definition new_cluster :: "nat \<Rightarrow> nat \<Rightarrow> timestamp \<Rightarrow> cluster" where
  "new_cluster n rnd now =
     \<lparr>clusterNumber = n, devices = [], hosts = [], frequency = getRandomFrequency rnd,
      createdAt = now\<rparr>"

definition cluster_name :: "string \<Rightarrow> nat \<Rightarrow> string" where
  "cluster_name sc n = sc @ ''_'' @ show_nat n"

definition placed :: "school \<Rightarrow> string \<Rightarrow> cluster \<Rightarrow> school" where
  "placed school nm c =
     school\<lparr>clusters := AList.update nm c (clusters school),
            totalDevices := totalDevices school + 1\<rparr>"

definition cluster_inv :: "cluster \<Rightarrow> bool" where
  "cluster_inv c \<longleftrightarrow>
     hosts c = take MAX_HOSTS_PER_CLUSTER (map deviceId (devices c)) \<and>
     length (devices c) \<le> MAX_DEVICES_PER_CLUSTER \<and>
     distinct (map deviceId (devices c)) \<and>
     frequency c \<in> set FREQUENCY_CHANNELS"

definition school_inv :: "string \<Rightarrow> school \<Rightarrow> bool" where
  "school_inv sc school \<longleftrightarrow>
     list_all (\<lambda>(nm, c). nm = cluster_name sc (clusterNumber c) \<and> 1 \<le> clusterNumber c \<and>
                 clusterNumber c \<le> lastClusterNumber school \<and> cluster_inv c)
       (clusters school) \<and>
     sorted_wrt (<) (map (\<lambda>(nm, c). clusterNumber c) (clusters school)) \<and>
     totalDevices school = int (sum_list (map (\<lambda>(nm, c). length (devices c)) (clusters school)))"

definition state_inv :: "server_state \<Rightarrow> bool" where
  "state_inv s \<longleftrightarrow> (\<forall>sc school. schoolData s sc = Some school \<longrightarrow> school_inv sc school)"

definition flat_new_school :: flat_school where
  "flat_new_school = \<lparr>school_devices = [], school_hosts = []\<rparr>"

definition flat_current_school :: "flat_state \<Rightarrow> string \<Rightarrow> flat_school" where
  "flat_current_school s sc = (case flat_schoolData s sc of Some school \<Rightarrow> school | None \<Rightarrow> flat_new_school)"

definition flat_has_device :: "flat_school \<Rightarrow> string \<Rightarrow> bool" where
  "flat_has_device school dev \<longleftrightarrow> dev \<in> set (map deviceId (school_devices school))"

definition flat_inv :: "flat_school \<Rightarrow> bool" where
  "flat_inv school \<longleftrightarrow>
     school_hosts school = take 3 (map deviceId (school_devices school)) \<and>
     distinct (map deviceId (school_devices school))"

definition flat_state_inv :: "flat_state \<Rightarrow> bool" where
  "flat_state_inv s \<longleftrightarrow> (\<forall>sc school. flat_schoolData s sc = Some school \<longrightarrow> flat_inv school)"

text \<open>A run used to instantiate the theorems: four devices register for school \<open>ABC\<close>.\<close>

definition four_devices :: "request list" where
  "four_devices = scenario 7 1 2 3 @ [PostGetHosts (Some ''ABC'') (Some ''d5'') 7 4]"

definition example_cluster :: cluster where
  "example_cluster =
     \<lparr>clusterNumber = 1,
      devices = [\<lparr>deviceId = ''d1'', registeredAt = 1\<rparr>, \<lparr>deviceId = ''d2'', registeredAt = 2\<rparr>,
                 \<lparr>deviceId = ''d4'', registeredAt = 3\<rparr>, \<lparr>deviceId = ''d5'', registeredAt = 4\<rparr>],
      hosts = [''d1'', ''d2'', ''d4''],
      frequency = 5320,
      createdAt = 1\<rparr>"

definition example_school :: school where
  "example_school =
     \<lparr>clusters = [(''ABC_1'', example_cluster)], totalDevices = 4, lastClusterNumber = 1\<rparr>"

definition flat_four_devices :: "flat_request list" where
  "flat_four_devices = flat_scenario 1 2 3 @ [FlatPostGetHosts (Some ''ABC'') (Some ''d5'') 4]"

definition example_flat_school :: flat_school where
  "example_flat_school =
     \<lparr>school_devices =
        [\<lparr>deviceId = ''d1'', registeredAt = 1\<rparr>, \<lparr>deviceId = ''d2'', registeredAt = 2\<rparr>,
         \<lparr>deviceId = ''d4'', registeredAt = 3\<rparr>, \<lparr>deviceId = ''d5'', registeredAt = 4\<rparr>],
      school_hosts = [''d1'', ''d2'', ''d4'']\<rparr>"

text \<open>The sum of the device-list lengths over all clusters of a school.\<close>

definition device_count :: "school \<Rightarrow> nat" where
  "device_count school = sum_list (map (\<lambda>(nm, c). length (devices c)) (clusters school))"

text \<open>
  Relations between two states of one school. \<open>cluster_kept c c'\<close>: \<open>c'\<close> is the cluster
  \<open>c\<close> after some placements (same number, frequency and creation time, devices only
  appended). \<open>school_change\<close>: what one request may do to a school that stays in the
  state; \<open>school_step\<close>: its reflexive and transitive weakening, for runs.
\<close>

definition cluster_kept :: "cluster \<Rightarrow> cluster \<Rightarrow> bool" where
  "cluster_kept c c' \<longleftrightarrow>
     clusterNumber c' = clusterNumber c \<and> frequency c' = frequency c \<and>
     createdAt c' = createdAt c \<and> take (length (devices c)) (devices c') = devices c"

definition school_step :: "school \<Rightarrow> school \<Rightarrow> bool" where
  "school_step school school' \<longleftrightarrow>
     lastClusterNumber school \<le> lastClusterNumber school' \<and>
     (\<forall>(nm, c') \<in> set (clusters school').
        (\<exists>c. (nm, c) \<in> set (clusters school) \<and> cluster_kept c c') \<or>
        lastClusterNumber school < clusterNumber c')"

definition school_change :: "string \<Rightarrow> school \<Rightarrow> school \<Rightarrow> bool" where
  "school_change sc school school' \<longleftrightarrow>
     (lastClusterNumber school' = lastClusterNumber school \<and>
      (\<forall>(nm, c') \<in> set (clusters school').
         \<exists>c. (nm, c) \<in> set (clusters school) \<and> cluster_kept c c')) \<or>
     (lastClusterNumber school' = lastClusterNumber school + 1 \<and>
      (\<exists>c. clusters school' =
             clusters school @ [(cluster_name sc (lastClusterNumber school + 1), c)] \<and>
           clusterNumber c = lastClusterNumber school + 1))"

definition example_school_after :: school where
  "example_school_after =
     \<lparr>clusters = [(''ABC_2'',
         \<lparr>clusterNumber = 2, devices = [\<lparr>deviceId = ''d9'', registeredAt = 9\<rparr>],
          hosts = [''d9''], frequency = 5240, createdAt = 9\<rparr>)],
      totalDevices = 1, lastClusterNumber = 2\<rparr>"

text \<open>A second run: ten devices fill the first cluster of school \<open>S\<close>.\<close>

definition ten_devices :: "request list" where
  "ten_devices =
     [PostGetHosts (Some ''S'') (Some ''t0'') 0 0,
      PostGetHosts (Some ''S'') (Some ''t1'') 0 1,
      PostGetHosts (Some ''S'') (Some ''t2'') 0 2,
      PostGetHosts (Some ''S'') (Some ''t3'') 0 3,
      PostGetHosts (Some ''S'') (Some ''t4'') 0 4,
      PostGetHosts (Some ''S'') (Some ''t5'') 0 5,
      PostGetHosts (Some ''S'') (Some ''t6'') 0 6,
      PostGetHosts (Some ''S'') (Some ''t7'') 0 7,
      PostGetHosts (Some ''S'') (Some ''t8'') 0 8,
      PostGetHosts (Some ''S'') (Some ''t9'') 0 9]"

definition full_cluster :: cluster where
  "full_cluster =
     \<lparr>clusterNumber = 1,
      devices = [\<lparr>deviceId = ''t0'', registeredAt = 0\<rparr>, \<lparr>deviceId = ''t1'', registeredAt = 1\<rparr>, \<lparr>deviceId = ''t2'', registeredAt = 2\<rparr>, \<lparr>deviceId = ''t3'', registeredAt = 3\<rparr>, \<lparr>deviceId = ''t4'', registeredAt = 4\<rparr>, \<lparr>deviceId = ''t5'', registeredAt = 5\<rparr>, \<lparr>deviceId = ''t6'', registeredAt = 6\<rparr>, \<lparr>deviceId = ''t7'', registeredAt = 7\<rparr>, \<lparr>deviceId = ''t8'', registeredAt = 8\<rparr>, \<lparr>deviceId = ''t9'', registeredAt = 9\<rparr>],
      hosts = [''t0'', ''t1'', ''t2''],
      frequency = 5180,
      createdAt = 0\<rparr>"

definition full_school :: school where
  "full_school = \<lparr>clusters = [(''S_1'', full_cluster)], totalDevices = 10, lastClusterNumber = 1\<rparr>"

text \<open>
  The device list stored under a cluster name of a school (clustered variant) or under a
  school (flat variant); empty when there is none.
\<close>

definition devices_of :: "server_state \<Rightarrow> string \<Rightarrow> string \<Rightarrow> device list" where
  "devices_of s sc nm =
     (case schoolData s sc of
        None \<Rightarrow> []
      | Some school \<Rightarrow> (case map_of (clusters school) nm of None \<Rightarrow> [] | Some c \<Rightarrow> devices c))"

definition flat_devices_of :: "flat_state \<Rightarrow> string \<Rightarrow> device list" where
  "flat_devices_of s sc =
     (case flat_schoolData s sc of None \<Rightarrow> [] | Some school \<Rightarrow> school_devices school)"

text \<open>
  Request sequences with a registration for the school code \<open>__proto__\<close>: after one device
  of school \<open>ABC\<close>, and between the first two devices of school \<open>ABC\<close>.
\<close>

definition polluting_requests :: "request list" where
  "polluting_requests =
     [PostGetHosts (Some ''ABC'') (Some ''d1'') 7 1,
      PostGetHosts (Some ''__proto__'') (Some ''zz'') 7 2]"

definition two_devices :: "request list" where
  "two_devices =
     [PostGetHosts (Some ''ABC'') (Some ''d1'') 7 1,
      PostGetHosts (Some ''ABC'') (Some ''d2'') 7 3]"

definition two_devices_interleaved :: "request list" where
  "two_devices_interleaved =
     [PostGetHosts (Some ''ABC'') (Some ''d1'') 7 1,
      PostGetHosts (Some ''__proto__'') (Some ''zz'') 7 2,
      PostGetHosts (Some ''ABC'') (Some ''d2'') 7 3]"

text \<open>
  The role table of the specification: the role fields of the device at index \<open>i\<close> of a
  device list whose host list is \<open>hs\<close>, and the school code a request is about.
\<close>

definition role_table :: "nat \<Rightarrow> string \<Rightarrow> string list \<Rightarrow> role_fields" where
  "role_table i self hs =
     (if i = 0 then
        \<lparr>hostDeviceId = Some self, host2DeviceId = None, host3DeviceId = None, role = host1\<rparr>
      else if i = 1 then
        \<lparr>hostDeviceId = Some (hs ! 0), host2DeviceId = Some self, host3DeviceId = None,
         role = host2\<rparr>
      else if i = 2 then
        \<lparr>hostDeviceId = Some (hs ! 0), host2DeviceId = Some (hs ! 1),
         host3DeviceId = Some self, role = host3\<rparr>
      else
        \<lparr>hostDeviceId = Some (hs ! 0), host2DeviceId = Some (hs ! 1),
         host3DeviceId = Some (hs ! 2), role = client\<rparr>)"

fun request_school :: "request \<Rightarrow> string option" where
  "request_school (PostGetHosts schoolCode dev rnd now) = schoolCode"
| "request_school (GetSchool schoolCode) = Some schoolCode"
| "request_school (GetCluster schoolCode n) = Some schoolCode"
| "request_school (DeleteSchool schoolCode) = Some schoolCode"
| "request_school (DeleteCluster schoolCode n) = Some schoolCode"
| "request_school GetHealth = None"

fun flat_request_school :: "flat_request \<Rightarrow> string option" where
  "flat_request_school (FlatPostGetHosts schoolCode dev now) = schoolCode"
| "flat_request_school (FlatGetSchool schoolCode) = Some schoolCode"
| "flat_request_school (FlatDeleteSchool schoolCode) = Some schoolCode"
| "flat_request_school FlatGetHealth = None"
| "flat_request_school FlatPing = None"

text \<open>
  What the role table of the specification says about a reply, given the device list and
  the host list it was computed from: the device stands at index \<open>i\<close> of the list and is
  the first entry with its \<open>deviceId\<close>, the position is \<open>i + 1\<close>, the role fields are the
  row \<open>i\<close> of the table, and a host slot beyond the host list is null.
\<close>

definition follows_table ::
  "string \<Rightarrow> device list \<Rightarrow> string list \<Rightarrow> int \<Rightarrow> role_fields \<Rightarrow> host_slots \<Rightarrow> bool" where
  "follows_table dev ds hs position rf slots \<longleftrightarrow>
     (\<exists>i. i < length ds \<and> deviceId (ds ! i) = dev \<and> (\<forall>j<i. deviceId (ds ! j) \<noteq> dev) \<and>
          position = int i + 1 \<and> rf = role_table i dev hs) \<and>
     (length hs \<le> 0 \<longrightarrow> slot_host1 slots = None) \<and>
     (length hs \<le> 1 \<longrightarrow> slot_host2 slots = None) \<and>
     (length hs \<le> 2 \<longrightarrow> slot_host3 slots = None)"

section \<open>Auxiliary facts\<close>

lemma show_nat_digit: "n < 10 \<Longrightarrow> show_nat n = [digit_char n]"
  by (simp add: show_nat.simps)

lemmas eval_defs =
  post_get_hosts_def placeDevice_def findOrCreateCluster_def getProperty_def
  Object_prototype_functions_def add_device_def MAX_HOSTS_PER_CLUSTER_def
  MAX_DEVICES_PER_CLUSTER_def has_device_def compose_response_def flat_compose_response_def
  flat_add_device_def derive_role_def all_hosts_def at_index_def
  or_null_def falsy_def cluster_message_def role_message_def show_nat_digit digit_char_def
  delete_school_def delete_cluster_def get_school_def get_cluster_def summarize_def
  flat_post_get_hosts_def flat_placeDevice_def flat_get_school_def flat_delete_school_def
  empty_state_def flat_empty_state_def Let_def

lemma findIndex_cases:
  "(findIndex P xs = -1 \<and> (\<forall>x\<in>set xs. \<not> P x)) \<or>
   (0 \<le> findIndex P xs \<and> nat (findIndex P xs) < length xs \<and>
    P (xs ! nat (findIndex P xs)) \<and> (\<forall>j < nat (findIndex P xs). \<not> P (xs ! j)))"
proof (induction xs)
  case Nil
  then show ?case by simp
next
  case (Cons a xs)
  show ?case
  proof (cases "P a")
    case True
    then show ?thesis by simp
  next
    case False
    from Cons.IH show ?thesis
    proof
      assume "findIndex P xs = -1 \<and> (\<forall>x\<in>set xs. \<not> P x)"
      with False show ?thesis by simp
    next
      assume B: "0 \<le> findIndex P xs \<and> nat (findIndex P xs) < length xs \<and>
        P (xs ! nat (findIndex P xs)) \<and> (\<forall>j < nat (findIndex P xs). \<not> P (xs ! j))"
      then have eq: "findIndex P (a # xs) = findIndex P xs + 1"
        using False by (simp add: Let_def)
      from B have n: "nat (findIndex P xs + 1) = Suc (nat (findIndex P xs))"
        by linarith
      from B False have "\<forall>j < Suc (nat (findIndex P xs)). \<not> P ((a # xs) ! j)"
        by (auto simp: less_Suc_eq_0_disj)
      with B show ?thesis unfolding eq n by simp
    qed
  qed
qed

lemma findIndex_none: "findIndex P xs = -1 \<longleftrightarrow> (\<forall>x\<in>set xs. \<not> P x)"
  using findIndex_cases [of P xs] by auto

lemma findIndex_found:
  assumes "\<exists>x\<in>set xs. P x"
  shows "0 \<le> findIndex P xs" and "nat (findIndex P xs) < length xs"
    and "P (xs ! nat (findIndex P xs))"
  using findIndex_cases [of P xs] assms by auto

lemma findIndex_append_new:
  "\<forall>x\<in>set xs. \<not> P x \<Longrightarrow> P y \<Longrightarrow> findIndex P (xs @ [y]) = int (length xs)"
  by (induction xs) (auto simp: Let_def)

lemma find_None_set: "List.find P xs = None \<longleftrightarrow> (\<forall>x\<in>set xs. \<not> P x)"
  by (induction xs) auto

lemma find_Some_split:
  "List.find P xs = Some x \<Longrightarrow> \<exists>ys zs. xs = ys @ x # zs \<and> P x \<and> (\<forall>y\<in>set ys. \<not> P y)"
proof (induction xs)
  case Nil
  then show ?case by simp
next
  case (Cons a xs)
  show ?case
  proof (cases "P a")
    case True
    with Cons.prems have "a = x" by simp
    with True show ?thesis by (intro exI [of _ "[]"] exI [of _ xs]) simp
  next
    case False
    with Cons obtain ys zs where "xs = ys @ x # zs" "P x" "\<forall>y\<in>set ys. \<not> P y" by auto
    with False show ?thesis by (intro exI [of _ "a # ys"] exI [of _ zs]) simp
  qed
qed

lemma update_fresh: "k \<notin> fst ` set al \<Longrightarrow> AList.update k v al = al @ [(k, v)]"
  by (induction al) auto

lemma update_split:
  "distinct (map fst al) \<Longrightarrow> (k, v0) \<in> set al \<Longrightarrow>
     \<exists>xs ys. al = xs @ (k, v0) # ys \<and> AList.update k v al = xs @ (k, v) # ys"
proof (induction al)
  case Nil
  then show ?case by simp
next
  case (Cons a al)
  show ?case
  proof (cases "a = (k, v0)")
    case True
    then show ?thesis by (intro exI [of _ "[]"] exI [of _ al]) simp
  next
    case False
    with Cons.prems have in_tl: "(k, v0) \<in> set al" and ne: "fst a \<noteq> k"
      by (auto simp: image_iff)
    with Cons obtain xs ys where "al = xs @ (k, v0) # ys" "AList.update k v al = xs @ (k, v) # ys"
      by auto
    with ne show ?thesis by (intro exI [of _ "a # xs"] exI [of _ ys]) (cases a, simp)
  qed
qed

lemma delete_split:
  "distinct (map fst al) \<Longrightarrow> (k, v0) \<in> set al \<Longrightarrow>
     \<exists>xs ys. al = xs @ (k, v0) # ys \<and> AList.delete k al = xs @ ys"
proof (induction al)
  case Nil
  then show ?case by simp
next
  case (Cons a al)
  show ?case
  proof (cases "a = (k, v0)")
    case True
    with Cons.prems have "k \<notin> fst ` set al" by (auto simp: image_iff)
    with True show ?thesis by (intro exI [of _ "[]"] exI [of _ al]) simp
  next
    case False
    with Cons.prems have in_tl: "(k, v0) \<in> set al" and ne: "fst a \<noteq> k"
      by (auto simp: image_iff)
    with Cons obtain xs ys where "al = xs @ (k, v0) # ys" "AList.delete k al = xs @ ys"
      by auto
    with ne show ?thesis by (intro exI [of _ "a # xs"] exI [of _ ys]) (cases a, simp)
  qed
qed

lemma digit_char_inj: "a < 10 \<Longrightarrow> b < 10 \<Longrightarrow> digit_char a = digit_char b \<Longrightarrow> a = b"
proof -
  have d: "distinct ''0123456789''" by simp
  assume "a < 10" "b < 10" "digit_char a = digit_char b"
  then show "a = b"
    using d by (simp add: digit_char_def nth_eq_iff_index_eq del: distinct.simps)
qed

lemma show_nat_nonempty: "show_nat n \<noteq> []"
  by (subst show_nat.simps) simp

lemma show_nat_inj: "show_nat m = show_nat n \<Longrightarrow> m = n"
proof (induction m arbitrary: n rule: show_nat.induct)
  case (1 m)
  show ?case
  proof (cases "m < 10")
    case True
    note m = this
    show ?thesis
    proof (cases "n < 10")
      case True
      with m "1.prems" show ?thesis
        by (simp add: show_nat_digit digit_char_inj)
    next
      case False
      with m "1.prems" show ?thesis
        using show_nat_nonempty [of "n div 10"]
        by (simp add: show_nat_digit show_nat.simps [of n])
    qed
  next
    case False
    note m = this
    show ?thesis
    proof (cases "n < 10")
      case True
      with m "1.prems" show ?thesis
        using show_nat_nonempty [of "m div 10"]
        by (simp add: show_nat_digit show_nat.simps [of m])
    next
      case False
      with m "1.prems" have "show_nat (m div 10) = show_nat (n div 10)"
        and "digit_char (m mod 10) = digit_char (n mod 10)"
        by (simp_all add: show_nat.simps [of m] show_nat.simps [of n])
      with m "1.IH" have "m div 10 = n div 10" and "m mod 10 = n mod 10"
        by (auto intro: digit_char_inj)
      then show ?thesis by (metis div_mult_mod_eq)
    qed
  qed
qed

lemma getProperty_Some [simp]: "own k = Some v \<Longrightarrow> getProperty p own k = Own v"
  by (simp add: getProperty_def)

lemma getProperty_truthy:
  "truthy (getProperty p own k) \<longleftrightarrow> own k \<noteq> None \<or> inherited_name k"
  by (auto simp: getProperty_def inherited_name_def split: option.splits)

lemma getProperty_Own: "getProperty p own k = Own v \<longleftrightarrow> own k = Some v"
  by (auto simp: getProperty_def split: option.splits)

lemma findOrCreateCluster_inherited:
  assumes "schoolData s sc = None" and "inherited_name sc"
  shows "findOrCreateCluster s sc dev rnd now =
     (if sc = ''__proto__'' then s\<lparr>polluted := True\<rparr> else s, Inl InternalError)"
  using assms by (auto simp: findOrCreateCluster_def getProperty_def inherited_name_def)

lemma findOrCreateCluster_own:
  assumes "schoolData s sc \<noteq> None \<or> \<not> inherited_name sc"
  shows "findOrCreateCluster s sc dev rnd now =
     (let school = current_school s sc;
          s1 = s\<lparr>schoolData := (schoolData s)(sc \<mapsto> school)\<rparr>
      in case List.find (\<lambda>(nm, c). has_device c dev) (clusters school) of
           Some (nm, c) \<Rightarrow> (s1, Inr (nm, c, True))
         | None \<Rightarrow>
             if polluted s then (s1, Inl InternalError)
             else
               (case List.find (\<lambda>(nm, c). length (devices c) < MAX_DEVICES_PER_CLUSTER)
                       (clusters school) of
                  Some (nm, c) \<Rightarrow> (s1, Inr (nm, c, False))
                | None \<Rightarrow>
                    (s\<lparr>schoolData := (schoolData s)(sc \<mapsto>
                         school\<lparr>lastClusterNumber := lastClusterNumber school + 1,
                           clusters := AList.update (cluster_name sc (lastClusterNumber school + 1))
                             (new_cluster (lastClusterNumber school + 1) rnd now) (clusters school)\<rparr>)\<rparr>,
                     Inr (cluster_name sc (lastClusterNumber school + 1),
                          new_cluster (lastClusterNumber school + 1) rnd now, False))))"
proof (cases "schoolData s sc")
  case None
  with assms have "\<not> inherited_name sc" by simp
  with None show ?thesis
    by (simp add: findOrCreateCluster_def getProperty_def inherited_name_def current_school_def
        new_school_def new_cluster_def cluster_name_def Let_def
        split: option.splits prod.splits)
next
  case (Some school)
  then have "s\<lparr>schoolData := (schoolData s)(sc \<mapsto> school)\<rparr> = s"
    by (simp add: map_upd_triv)
  with Some show ?thesis
    by (simp add: findOrCreateCluster_def current_school_def
        new_cluster_def cluster_name_def Let_def
        split: option.splits prod.splits)
qed

lemma placeDevice_inherited:
  assumes "schoolData s sc = None" and "inherited_name sc"
  shows "placeDevice s sc dev rnd now =
     (if sc = ''__proto__'' then s\<lparr>polluted := True\<rparr> else s, Inl InternalError)"
  using assms by (simp add: placeDevice_def findOrCreateCluster_inherited)

lemma placeDevice_own:
  assumes "schoolData s sc \<noteq> None \<or> \<not> inherited_name sc"
  shows "placeDevice s sc dev rnd now =
     (let school = current_school s sc
      in case List.find (\<lambda>(nm, c). has_device c dev) (clusters school) of
           Some (nm, c) \<Rightarrow>
             (s\<lparr>schoolData := (schoolData s)(sc \<mapsto> school)\<rparr>,
              Inr (compose_response sc dev nm c (totalDevices school)))
         | None \<Rightarrow>
             if polluted s
             then (s\<lparr>schoolData := (schoolData s)(sc \<mapsto> school)\<rparr>, Inl InternalError)
             else
               (case List.find (\<lambda>(nm, c). length (devices c) < MAX_DEVICES_PER_CLUSTER)
                       (clusters school) of
                  Some (nm, c) \<Rightarrow>
                    (s\<lparr>schoolData := (schoolData s)(sc \<mapsto>
                         placed school nm (add_device c dev now))\<rparr>,
                     Inr (compose_response sc dev nm (add_device c dev now)
                           (totalDevices school + 1)))
                | None \<Rightarrow>
                    (let n = lastClusterNumber school + 1;
                         c = add_device (new_cluster n rnd now) dev now
                     in (s\<lparr>schoolData := (schoolData s)(sc \<mapsto>
                           placed (school\<lparr>lastClusterNumber := n\<rparr>) (cluster_name sc n) c)\<rparr>,
                         Inr (compose_response sc dev (cluster_name sc n) c
                               (totalDevices school + 1))))))"
  unfolding placeDevice_def findOrCreateCluster_own [OF assms]
  by (simp add: Let_def placed_def split: option.splits prod.splits)

lemma has_device_iff: "has_device c dev \<longleftrightarrow> dev \<in> set (map deviceId (devices c))"
  by (auto simp: has_device_def find_None_set)

lemma getRandomFrequency_channel: "getRandomFrequency rnd \<in> set FREQUENCY_CHANNELS"
proof -
  have "0 < length FREQUENCY_CHANNELS" by (simp add: FREQUENCY_CHANNELS_def)
  then show ?thesis unfolding getRandomFrequency_def by (intro nth_mem) simp
qed

lemma cluster_inv_new: "cluster_inv (new_cluster n rnd now)"
  by (simp add: cluster_inv_def new_cluster_def getRandomFrequency_channel)

lemma add_device_simps:
  "devices (add_device c dev now) = devices c @ [\<lparr>deviceId = dev, registeredAt = now\<rparr>]"
  "clusterNumber (add_device c dev now) = clusterNumber c"
  "frequency (add_device c dev now) = frequency c"
  "createdAt (add_device c dev now) = createdAt c"
  "hosts (add_device c dev now) =
     (if length (hosts c) < MAX_HOSTS_PER_CLUSTER then hosts c @ [dev] else hosts c)"
  by (simp_all add: add_device_def Let_def)

lemma cluster_inv_add_device:
  assumes "cluster_inv c" and "length (devices c) < MAX_DEVICES_PER_CLUSTER"
    and "\<not> has_device c dev"
  shows "cluster_inv (add_device c dev now)"
proof -
  let ?ids = "map deviceId (devices c)"
  from assms(1) have h: "hosts c = take MAX_HOSTS_PER_CLUSTER ?ids"
    and d: "distinct ?ids" and f: "frequency c \<in> set FREQUENCY_CHANNELS"
    by (simp_all add: cluster_inv_def)
  have "hosts (add_device c dev now) = take MAX_HOSTS_PER_CLUSTER (?ids @ [dev])"
  proof (cases "length (hosts c) < MAX_HOSTS_PER_CLUSTER")
    case True
    with h have "length ?ids < MAX_HOSTS_PER_CLUSTER" by (simp add: min_def split: if_splits)
    with h True show ?thesis by (simp add: add_device_simps)
  next
    case False
    with h have "MAX_HOSTS_PER_CLUSTER \<le> length ?ids" by (simp add: min_def split: if_splits)
    with h False show ?thesis by (simp add: add_device_simps)
  qed
  with assms(2,3) d f show ?thesis
    by (simp add: cluster_inv_def add_device_simps has_device_iff)
qed

lemma cluster_name_inj: "cluster_name sc m = cluster_name sc n \<Longrightarrow> m = n"
  by (simp add: cluster_name_def show_nat_inj)

lemma school_inv_new: "school_inv sc new_school"
  by (simp add: school_inv_def new_school_def)

lemma school_inv_names:
  assumes "school_inv sc school"
  shows "map fst (clusters school) = map (\<lambda>(nm, c). cluster_name sc (clusterNumber c)) (clusters school)"
  using assms by (auto simp: school_inv_def list_all_iff)

lemma school_inv_distinct:
  assumes "school_inv sc school"
  shows "distinct (map fst (clusters school))"
proof -
  from assms have "distinct (map (\<lambda>(nm, c). clusterNumber c) (clusters school))"
    by (simp add: school_inv_def strict_sorted_iff)
  then have "distinct (map (cluster_name sc) (map (\<lambda>(nm, c). clusterNumber c) (clusters school)))"
    by (simp add: distinct_map inj_on_def cluster_name_inj del: map_map)
  moreover have "map fst (clusters school) =
      map (cluster_name sc) (map (\<lambda>(nm, c). clusterNumber c) (clusters school))"
    by (subst school_inv_names [OF assms]) (simp add: case_prod_unfold)
  ultimately show ?thesis by (simp only:)
qed

lemma update_at:
  "nm \<notin> fst ` set ys \<Longrightarrow> AList.update nm c (ys @ (nm, c0) # zs) = ys @ (nm, c) # zs"
  by (induction ys) auto

lemma delete_at:
  "distinct (map fst (ys @ (nm, c0) # zs)) \<Longrightarrow> AList.delete nm (ys @ (nm, c0) # zs) = ys @ zs"
  by (induction ys) (auto simp: image_iff)

lemma school_inv_placed_existing:
  assumes inv: "school_inv sc school"
    and split: "clusters school = ys @ (nm, c0) # zs"
    and c: "cluster_inv c" "clusterNumber c = clusterNumber c0"
      "length (devices c) = length (devices c0) + 1"
  shows "clusters (placed school nm c) = ys @ (nm, c) # zs"
    and "school_inv sc (placed school nm c)"
proof -
  from school_inv_distinct [OF inv] split have "nm \<notin> fst ` set ys" by auto
  with split show eq: "clusters (placed school nm c) = ys @ (nm, c) # zs"
    by (simp add: placed_def update_at)
  from inv split c show "school_inv sc (placed school nm c)"
    unfolding school_inv_def eq by (simp add: placed_def sorted_wrt_append)
qed

lemma school_inv_placed_new:
  assumes inv: "school_inv sc school"
    and c: "cluster_inv c" "clusterNumber c = lastClusterNumber school + 1"
      "length (devices c) = 1"
  shows "clusters (placed (school\<lparr>lastClusterNumber := lastClusterNumber school + 1\<rparr>)
            (cluster_name sc (lastClusterNumber school + 1)) c) =
          clusters school @ [(cluster_name sc (lastClusterNumber school + 1), c)]"
    and "school_inv sc (placed (school\<lparr>lastClusterNumber := lastClusterNumber school + 1\<rparr>)
            (cluster_name sc (lastClusterNumber school + 1)) c)"
proof -
  let ?n = "lastClusterNumber school + 1"
  have fresh: "cluster_name sc ?n \<notin> fst ` set (clusters school)"
  proof
    assume "cluster_name sc ?n \<in> fst ` set (clusters school)"
    then obtain c' where in_cl: "(cluster_name sc ?n, c') \<in> set (clusters school)" by auto
    with inv have "cluster_name sc ?n = cluster_name sc (clusterNumber c')"
      and "clusterNumber c' \<le> lastClusterNumber school"
      by (auto simp: school_inv_def list_all_iff)
    then show False using cluster_name_inj [of sc ?n "clusterNumber c'"] by simp
  qed
  then show eq: "clusters (placed (school\<lparr>lastClusterNumber := ?n\<rparr>) (cluster_name sc ?n) c) =
      clusters school @ [(cluster_name sc ?n, c)]"
    by (simp add: placed_def update_fresh)
  from inv have old: "list_all (\<lambda>(nm, c). nm = cluster_name sc (clusterNumber c) \<and>
      1 \<le> clusterNumber c \<and> clusterNumber c \<le> ?n \<and> cluster_inv c) (clusters school)"
    by (auto simp: school_inv_def list_all_iff)
  from inv have lt: "\<forall>x\<in>set (clusters school). (case x of (nm, c) \<Rightarrow> clusterNumber c) < ?n"
    by (auto simp: school_inv_def list_all_iff)
  from inv old lt c show "school_inv sc (placed (school\<lparr>lastClusterNumber := ?n\<rparr>) (cluster_name sc ?n) c)"
    unfolding school_inv_def eq by (simp add: placed_def sorted_wrt_append)
qed

lemma school_inv_delete:
  assumes inv: "school_inv sc school" and c: "map_of (clusters school) nm = Some c"
  shows "school_inv sc (school\<lparr>totalDevices := totalDevices school - int (length (devices c)),
            clusters := AList.delete nm (clusters school)\<rparr>)"
proof -
  note d = school_inv_distinct [OF inv]
  from c have "(nm, c) \<in> set (clusters school)" by (rule map_of_SomeD)
  then obtain ys zs where split: "clusters school = ys @ (nm, c) # zs"
    by (auto simp: in_set_conv_decomp)
  with d have del: "AList.delete nm (clusters school) = ys @ zs"
    by (simp add: delete_at)
  from inv split show ?thesis
    unfolding school_inv_def del by (auto simp: sorted_wrt_append)
qed

lemma state_inv_upd:
  "state_inv s \<Longrightarrow> school_inv sc school \<Longrightarrow>
     state_inv (s\<lparr>schoolData := (schoolData s)(sc \<mapsto> school)\<rparr>)"
  by (simp add: state_inv_def)

lemma state_inv_polluted [simp]: "state_inv (s\<lparr>polluted := b\<rparr>) = state_inv s"
  by (simp add: state_inv_def)

lemma state_inv_remove: "state_inv s \<Longrightarrow> state_inv (s\<lparr>schoolData := (schoolData s)(sc := None)\<rparr>)"
  by (simp add: state_inv_def)

lemma current_school_inv: "state_inv s \<Longrightarrow> school_inv sc (current_school s sc)"
  by (auto simp: state_inv_def current_school_def school_inv_new split: option.splits)

lemma school_inv_cluster:
  "school_inv sc school \<Longrightarrow> (nm, c) \<in> set (clusters school) \<Longrightarrow>
     nm = cluster_name sc (clusterNumber c) \<and> 1 \<le> clusterNumber c \<and>
     clusterNumber c \<le> lastClusterNumber school \<and> cluster_inv c"
  by (auto simp: school_inv_def list_all_iff)

lemma add_device_new_cluster_inv:
  "cluster_inv (add_device (new_cluster n rnd now) dev now')"
  by (rule cluster_inv_add_device [OF cluster_inv_new])
     (simp_all add: new_cluster_def has_device_iff MAX_DEVICES_PER_CLUSTER_def)

lemma placeDevice_state_inv:
  assumes inv: "state_inv s"
  shows "state_inv (fst (placeDevice s sc dev rnd now))"
proof (cases "schoolData s sc \<noteq> None \<or> \<not> inherited_name sc")
  case False
  then show ?thesis using inv by (simp add: placeDevice_inherited)
next
  case True
  let ?school = "current_school s sc"
  note sinv = current_school_inv [OF inv, of sc]
  show ?thesis
  proof (cases "List.find (\<lambda>(nm, c). has_device c dev) (clusters ?school)")
    case (Some a)
    then show ?thesis
      using inv sinv
      by (cases a) (simp add: placeDevice_own [OF True] state_inv_upd Let_def)
  next
    case None
    note no_dev = this
    show ?thesis
    proof (cases "polluted s")
      case True
      then show ?thesis
        using inv sinv no_dev \<open>schoolData s sc \<noteq> None \<or> \<not> inherited_name sc\<close>
        by (simp add: placeDevice_own state_inv_upd)
    next
      case False
      note unpolluted = this
      show ?thesis
      proof (cases "List.find (\<lambda>(nm, c). length (devices c) < MAX_DEVICES_PER_CLUSTER)
                      (clusters ?school)")
        case None
        have "school_inv sc (placed (?school\<lparr>lastClusterNumber := lastClusterNumber ?school + 1\<rparr>)
            (cluster_name sc (lastClusterNumber ?school + 1))
            (add_device (new_cluster (lastClusterNumber ?school + 1) rnd now) dev now))"
          by (rule school_inv_placed_new(2) [OF sinv add_device_new_cluster_inv])
             (simp_all add: add_device_simps new_cluster_def)
        with None no_dev unpolluted inv show ?thesis
          by (simp add: placeDevice_own [OF True] state_inv_upd Let_def)
      next
        case (Some a)
        obtain nm c0 where a: "a = (nm, c0)" by (cases a)
        from find_Some_split [OF Some] a obtain ys zs
          where split: "clusters ?school = ys @ (nm, c0) # zs"
            and space: "length (devices c0) < MAX_DEVICES_PER_CLUSTER"
          by auto
        from split have mem: "(nm, c0) \<in> set (clusters ?school)" by simp
        from no_dev mem have nd: "\<not> has_device c0 dev"
          by (auto simp: find_None_set)
        from school_inv_cluster [OF sinv mem] have "cluster_inv c0" by simp
        from cluster_inv_add_device [OF this space nd]
        have "school_inv sc (placed ?school nm (add_device c0 dev now))"
          by (intro school_inv_placed_existing(2) [OF sinv split])
             (simp_all add: add_device_simps)
        with Some a no_dev unpolluted inv show ?thesis
          by (simp add: placeDevice_own [OF True] state_inv_upd Let_def)
      qed
    qed
  qed
qed

lemma delete_cluster_state_inv:
  assumes inv: "state_inv s"
  shows "state_inv (fst (delete_cluster s sc n))"
proof -
  have "school_inv sc (school\<lparr>totalDevices := totalDevices school - int (length (devices c)),
            clusters := AList.delete nm (clusters school)\<rparr>)"
    if "schoolData s sc = Some school" "map_of (clusters school) nm = Some c" for school nm c
    using that inv by (intro school_inv_delete) (auto simp: state_inv_def)
  with inv show ?thesis
    by (auto simp: delete_cluster_def Let_def getProperty_Own state_inv_upd
        split: property.splits)
qed

lemma fst_handle:
  "fst (handle s (PostGetHosts a b rnd now)) = fst (post_get_hosts s a b rnd now)"
  "fst (handle s (GetSchool sc)) = s"
  "fst (handle s (GetCluster sc n)) = s"
  "fst (handle s (DeleteSchool sc)) = fst (delete_school s sc)"
  "fst (handle s (DeleteCluster sc n)) = fst (delete_cluster s sc n)"
  "fst (handle s GetHealth) = s"
  by (simp_all split: prod.splits sum.splits)

lemma post_get_hosts_cases:
  "post_get_hosts s a b rnd now =
     (if falsy a \<or> falsy b then (s, Inl ValidationError)
      else placeDevice s (the a) (the b) rnd now)"
  by (auto simp: post_get_hosts_def falsy_def split: option.splits)

lemma handle_state_inv:
  assumes "state_inv s"
  shows "state_inv (fst (handle s r))"
  using assms
  by (cases r)
     (simp_all add: fst_handle post_get_hosts_cases placeDevice_state_inv
        delete_cluster_state_inv delete_school_def state_inv_remove del: handle.simps)

lemma state_inv_empty: "state_inv empty_state"
  by (simp add: state_inv_def empty_state_def)

lemma reachable_state_inv: "reachable s \<Longrightarrow> state_inv s"
  by (induction rule: reachable.induct) (simp_all add: state_inv_empty handle_state_inv)

lemma flat_placeDevice_inherited:
  assumes "flat_schoolData s sc = None" and "inherited_name sc"
  shows "flat_placeDevice s sc dev now = (s, Inl InternalError)"
  using assms by (auto simp: flat_placeDevice_def getProperty_def inherited_name_def)

lemma findIndex_none_ids:
  "findIndex (\<lambda>d. deviceId d = dev) ds = -1 \<longleftrightarrow> dev \<notin> set (map deviceId ds)"
  by (auto simp: findIndex_none)

lemma flat_placeDevice_own:
  assumes "flat_schoolData s sc \<noteq> None \<or> \<not> inherited_name sc"
  shows "flat_placeDevice s sc dev now =
     (let school0 = flat_current_school s sc;
          school = (if flat_has_device school0 dev then school0 else flat_add_device school0 dev now)
      in (s\<lparr>flat_schoolData := (flat_schoolData s)(sc \<mapsto> school)\<rparr>, Inr (flat_compose_response sc dev school)))"
proof (cases "flat_schoolData s sc")
  case None
  with assms have "\<not> inherited_name sc" by simp
  with None show ?thesis
    by (simp add: flat_placeDevice_def getProperty_def inherited_name_def flat_current_school_def
        flat_new_school_def flat_has_device_def Let_def)
next
  case (Some school)
  then have "s\<lparr>flat_schoolData := (flat_schoolData s)(sc \<mapsto> school)\<rparr> = s" by (simp add: map_upd_triv)
  with Some show ?thesis
    by (simp add: flat_placeDevice_def flat_current_school_def flat_has_device_def
        findIndex_none_ids Let_def)
qed

lemma flat_add_device_simps:
  "school_devices (flat_add_device school dev now) =
     school_devices school @ [\<lparr>deviceId = dev, registeredAt = now\<rparr>]"
  "school_hosts (flat_add_device school dev now) =
     (if length (school_hosts school) < 3 then school_hosts school @ [dev] else school_hosts school)"
  by (simp_all add: flat_add_device_def Let_def)

lemma flat_inv_add_device:
  assumes "flat_inv school" and "\<not> flat_has_device school dev"
  shows "flat_inv (flat_add_device school dev now)"
proof -
  let ?ids = "map deviceId (school_devices school)"
  from assms(1) have h: "school_hosts school = take 3 ?ids" and d: "distinct ?ids"
    by (simp_all add: flat_inv_def)
  have "school_hosts (flat_add_device school dev now) = take 3 (?ids @ [dev])"
  proof (cases "length (school_hosts school) < 3")
    case True
    with h have "length ?ids < 3" by (simp add: min_def split: if_splits)
    with h True show ?thesis by (simp add: flat_add_device_simps)
  next
    case False
    with h have "3 \<le> length ?ids" by (simp add: min_def split: if_splits)
    with h False show ?thesis by (simp add: flat_add_device_simps)
  qed
  with assms(2) d show ?thesis
    by (simp add: flat_inv_def flat_add_device_simps flat_has_device_def)
qed

lemma flat_current_school_inv: "flat_state_inv s \<Longrightarrow> flat_inv (flat_current_school s sc)"
  by (auto simp: flat_state_inv_def flat_current_school_def flat_new_school_def flat_inv_def
      split: option.splits)

lemma flat_state_inv_upd:
  "flat_state_inv s \<Longrightarrow> flat_inv school \<Longrightarrow>
     flat_state_inv (s\<lparr>flat_schoolData := (flat_schoolData s)(sc \<mapsto> school)\<rparr>)"
  by (simp add: flat_state_inv_def)

lemma flat_placeDevice_state_inv:
  assumes "flat_state_inv s"
  shows "flat_state_inv (fst (flat_placeDevice s sc dev now))"
proof (cases "flat_schoolData s sc \<noteq> None \<or> \<not> inherited_name sc")
  case True
  note cur = flat_current_school_inv [OF assms, of sc]
  show ?thesis
  proof (cases "flat_has_device (flat_current_school s sc) dev")
    case True
    with assms cur show ?thesis
      using \<open>flat_schoolData s sc \<noteq> None \<or> \<not> inherited_name sc\<close>
      by (simp add: flat_placeDevice_own Let_def flat_state_inv_upd)
  next
    case False
    with assms flat_inv_add_device [OF cur False] show ?thesis
      using \<open>flat_schoolData s sc \<noteq> None \<or> \<not> inherited_name sc\<close>
      by (simp add: flat_placeDevice_own Let_def flat_state_inv_upd)
  qed
next
  case False
  with assms show ?thesis by (simp add: flat_placeDevice_inherited)
qed

lemma fst_flat_handle:
  "fst (flat_handle s (FlatPostGetHosts a b now)) = fst (flat_post_get_hosts s a b now)"
  "fst (flat_handle s (FlatGetSchool sc)) = s"
  "fst (flat_handle s (FlatDeleteSchool sc)) = fst (flat_delete_school s sc)"
  "fst (flat_handle s FlatGetHealth) = s"
  "fst (flat_handle s FlatPing) = s"
  by (simp_all split: prod.splits sum.splits)

lemma flat_post_get_hosts_cases:
  "flat_post_get_hosts s a b now =
     (if falsy a \<or> falsy b then (s, Inl ValidationError)
      else flat_placeDevice s (the a) (the b) now)"
  by (auto simp: flat_post_get_hosts_def falsy_def split: option.splits)

lemma flat_handle_state_inv:
  assumes "flat_state_inv s"
  shows "flat_state_inv (fst (flat_handle s r))"
proof (cases r)
  case (FlatDeleteSchool sc)
  with assms show ?thesis
    by (simp add: fst_flat_handle flat_delete_school_def flat_state_inv_def del: flat_handle.simps)
qed (use assms in \<open>simp_all add: fst_flat_handle flat_post_get_hosts_cases
       flat_placeDevice_state_inv del: flat_handle.simps\<close>)

lemma flat_state_inv_empty: "flat_state_inv flat_empty_state"
  by (simp add: flat_state_inv_def flat_empty_state_def)

lemma flat_reachable_state_inv: "flat_reachable s \<Longrightarrow> flat_state_inv s"
  by (induction rule: flat_reachable.induct)
     (simp_all add: flat_handle_state_inv flat_state_inv_empty)

lemma reachable_run: "reachable s \<Longrightarrow> reachable (run s rs)"
  unfolding run_def by (induction rs arbitrary: s) (auto intro: reachable.intros)

lemma flat_reachable_run: "flat_reachable s \<Longrightarrow> flat_reachable (flat_run s rs)"
  unfolding flat_run_def by (induction rs arbitrary: s) (auto intro: flat_reachable.intros)

lemma placed_simps [simp]:
  "totalDevices (placed school nm c) = totalDevices school + 1"
  "lastClusterNumber (placed school nm c) = lastClusterNumber school"
  by (simp_all add: placed_def)

lemma placeDevice_cases [consumes 1, case_names inherited existing polluted space fresh]:
  assumes inv: "state_inv s"
  obtains
    (inherited) "schoolData s sc = None" and "inherited_name sc"
      and "placeDevice s sc dev rnd now =
             (if sc = ''__proto__'' then s\<lparr>polluted := True\<rparr> else s, Inl InternalError)"
  | (existing) nm c ys zs where "schoolData s sc \<noteq> None"
      and "clusters (current_school s sc) = ys @ (nm, c) # zs"
      and "has_device c dev" and "\<forall>(k, v)\<in>set ys. \<not> has_device v dev"
      and "placeDevice s sc dev rnd now =
             (s, Inr (compose_response sc dev nm c (totalDevices (current_school s sc))))"
  | (polluted) "polluted s" and "\<not> inherited_name sc \<or> schoolData s sc \<noteq> None"
      and "\<forall>(k, v)\<in>set (clusters (current_school s sc)). \<not> has_device v dev"
      and "placeDevice s sc dev rnd now =
             (s\<lparr>schoolData := (schoolData s)(sc \<mapsto> current_school s sc)\<rparr>, Inl InternalError)"
  | (space) nm c ys zs where "\<not> polluted s" and "\<not> inherited_name sc \<or> schoolData s sc \<noteq> None"
      and "\<forall>(k, v)\<in>set (clusters (current_school s sc)). \<not> has_device v dev"
      and "clusters (current_school s sc) = ys @ (nm, c) # zs"
      and "length (devices c) < MAX_DEVICES_PER_CLUSTER"
      and "\<forall>(k, v)\<in>set ys. \<not> length (devices v) < MAX_DEVICES_PER_CLUSTER"
      and "clusters (placed (current_school s sc) nm (add_device c dev now)) =
             ys @ (nm, add_device c dev now) # zs"
      and "placeDevice s sc dev rnd now =
             (s\<lparr>schoolData := (schoolData s)(sc \<mapsto>
                  placed (current_school s sc) nm (add_device c dev now))\<rparr>,
              Inr (compose_response sc dev nm (add_device c dev now)
                    (totalDevices (current_school s sc) + 1)))"
  | (fresh) n c where "\<not> polluted s" and "\<not> inherited_name sc \<or> schoolData s sc \<noteq> None"
      and "\<forall>(k, v)\<in>set (clusters (current_school s sc)). \<not> has_device v dev"
      and "\<forall>(k, v)\<in>set (clusters (current_school s sc)).
             \<not> length (devices v) < MAX_DEVICES_PER_CLUSTER"
      and "n = lastClusterNumber (current_school s sc) + 1"
      and "c = add_device (new_cluster n rnd now) dev now"
      and "clusters (placed (current_school s sc\<lparr>lastClusterNumber := n\<rparr>) (cluster_name sc n) c) =
             clusters (current_school s sc) @ [(cluster_name sc n, c)]"
      and "placeDevice s sc dev rnd now =
             (s\<lparr>schoolData := (schoolData s)(sc \<mapsto>
                  placed (current_school s sc\<lparr>lastClusterNumber := n\<rparr>) (cluster_name sc n) c)\<rparr>,
              Inr (compose_response sc dev (cluster_name sc n) c
                    (totalDevices (current_school s sc) + 1)))"
proof (cases "schoolData s sc \<noteq> None \<or> \<not> inherited_name sc")
  case False
  then show ?thesis using inherited by (simp add: placeDevice_inherited)
next
  case True
  let ?school = "current_school s sc"
  note sinv = current_school_inv [OF inv, of sc]
  show ?thesis
  proof (cases "List.find (\<lambda>(nm, c). has_device c dev) (clusters ?school)")
    case (Some a)
    obtain nm c where a: "a = (nm, c)" by (cases a)
    from find_Some_split [OF Some] a obtain ys zs
      where split: "clusters ?school = ys @ (nm, c) # zs" and has: "has_device c dev"
        and before: "\<forall>(k, v)\<in>set ys. \<not> has_device v dev"
      by auto
    from split have ex: "schoolData s sc \<noteq> None"
      by (auto simp: current_school_def new_school_def split: option.splits)
    then have own: "schoolData s sc = Some ?school"
      by (auto simp: current_school_def)
    then have "s\<lparr>schoolData := (schoolData s)(sc \<mapsto> ?school)\<rparr> = s"
      by (simp add: map_upd_triv)
    with Some a have "placeDevice s sc dev rnd now =
        (s, Inr (compose_response sc dev nm c (totalDevices ?school)))"
      by (simp add: placeDevice_own [OF True] Let_def)
    with ex split has before show ?thesis by (rule existing)
  next
    case None
    then have no_dev: "\<forall>(k, v)\<in>set (clusters ?school). \<not> has_device v dev"
      by (auto simp: find_None_set)
    from True have own': "\<not> inherited_name sc \<or> schoolData s sc \<noteq> None" by auto
    show ?thesis
    proof (cases "polluted s")
      case True
      with None have "placeDevice s sc dev rnd now =
          (s\<lparr>schoolData := (schoolData s)(sc \<mapsto> ?school)\<rparr>, Inl InternalError)"
        using \<open>schoolData s sc \<noteq> None \<or> \<not> inherited_name sc\<close>
        by (simp add: placeDevice_own Let_def)
      with True own' no_dev show ?thesis by (rule polluted)
    next
      case False
      note unpolluted = this
      show ?thesis
      proof (cases "List.find (\<lambda>(nm, c). length (devices c) < MAX_DEVICES_PER_CLUSTER)
                      (clusters ?school)")
        case None
        then have full: "\<forall>(k, v)\<in>set (clusters ?school).
            \<not> length (devices v) < MAX_DEVICES_PER_CLUSTER"
          by (auto simp: find_None_set)
        let ?n = "lastClusterNumber ?school + 1"
        let ?c = "add_device (new_cluster ?n rnd now) dev now"
        have cl: "clusters (placed (?school\<lparr>lastClusterNumber := ?n\<rparr>) (cluster_name sc ?n) ?c) =
            clusters ?school @ [(cluster_name sc ?n, ?c)]"
          by (rule school_inv_placed_new(1) [OF sinv add_device_new_cluster_inv])
             (simp_all add: add_device_simps new_cluster_def)
        from None \<open>find (\<lambda>(nm, c). has_device c dev) (clusters ?school) = None\<close> unpolluted
        have "placeDevice s sc dev rnd now =
            (s\<lparr>schoolData := (schoolData s)(sc \<mapsto>
                 placed (?school\<lparr>lastClusterNumber := ?n\<rparr>) (cluster_name sc ?n) ?c)\<rparr>,
             Inr (compose_response sc dev (cluster_name sc ?n) ?c (totalDevices ?school + 1)))"
          by (simp add: placeDevice_own [OF True] Let_def)
        with unpolluted own' no_dev full cl show ?thesis
          by (intro fresh [of ?n ?c]) simp_all
      next
        case (Some a)
        obtain nm c0 where a: "a = (nm, c0)" by (cases a)
        from find_Some_split [OF Some] a obtain ys zs
          where split: "clusters ?school = ys @ (nm, c0) # zs"
            and room: "length (devices c0) < MAX_DEVICES_PER_CLUSTER"
            and before: "\<forall>(k, v)\<in>set ys. \<not> length (devices v) < MAX_DEVICES_PER_CLUSTER"
          by auto
        from split have mem: "(nm, c0) \<in> set (clusters ?school)" by simp
        with no_dev have nd: "\<not> has_device c0 dev" by auto
        from school_inv_cluster [OF sinv mem] have "cluster_inv c0" by simp
        from cluster_inv_add_device [OF this room nd]
        have cl: "clusters (placed ?school nm (add_device c0 dev now)) =
            ys @ (nm, add_device c0 dev now) # zs"
          by (intro school_inv_placed_existing(1) [OF sinv split])
             (simp_all add: add_device_simps)
        from Some a \<open>find (\<lambda>(nm, c). has_device c dev) (clusters ?school) = None\<close> unpolluted
        have "placeDevice s sc dev rnd now =
            (s\<lparr>schoolData := (schoolData s)(sc \<mapsto> placed ?school nm (add_device c0 dev now))\<rparr>,
             Inr (compose_response sc dev nm (add_device c0 dev now) (totalDevices ?school + 1)))"
          by (simp add: placeDevice_own [OF True] Let_def)
        with unpolluted own' no_dev split room before cl show ?thesis
          by (rule space)
      qed
    qed
  qed
qed

lemma current_school_Some [simp]: "schoolData s sc = Some school \<Longrightarrow> current_school s sc = school"
  by (simp add: current_school_def)

lemma school_inv_count: "school_inv sc school \<Longrightarrow> totalDevices school = int (device_count school)"
  by (simp add: school_inv_def device_count_def)

lemma reachable_school_inv:
  "reachable s \<Longrightarrow> schoolData s sc = Some school \<Longrightarrow> school_inv sc school"
  using reachable_state_inv [of s] by (simp add: state_inv_def)

lemma delete_cluster_cases [case_names failed removed]:
  obtains
    (failed) e where "delete_cluster s sc n = (s, Inl e)"
  | (removed) school c where "schoolData s sc = Some school"
      and "map_of (clusters school) (sc @ ''_'' @ n) = Some c"
      and "delete_cluster s sc n =
             (s\<lparr>schoolData := (schoolData s)(sc \<mapsto>
                  school\<lparr>totalDevices := totalDevices school - int (length (devices c)),
                         clusters := AList.delete (sc @ ''_'' @ n) (clusters school)\<rparr>)\<rparr>,
              Inr (''Cluster '' @ sc @ ''_'' @ n @ '' reset successfully''))"
proof (cases "getProperty (polluted s) (schoolData s) sc")
  case (Own school)
  note school = this
  show ?thesis
  proof (cases "getProperty (polluted s) (map_of (clusters school)) (sc @ ''_'' @ n)")
    case (Own c)
    with school show ?thesis
      by (intro removed [of school c]) (simp_all add: delete_cluster_def getProperty_Own)
  qed (use school in \<open>simp_all add: delete_cluster_def failed\<close>)
qed (simp_all add: delete_cluster_def failed)

lemma delete_cluster_own:
  assumes "schoolData s sc = Some school"
    and "map_of (clusters school) (sc @ ''_'' @ n) = Some c"
  shows "delete_cluster s sc n =
     (s\<lparr>schoolData := (schoolData s)(sc \<mapsto>
          school\<lparr>totalDevices := totalDevices school - int (length (devices c)),
                 clusters := AList.delete (sc @ ''_'' @ n) (clusters school)\<rparr>)\<rparr>,
      Inr (''Cluster '' @ sc @ ''_'' @ n @ '' reset successfully''))"
  using assms by (simp add: delete_cluster_def)

lemma sum_list_delete:
  assumes "distinct (map fst al)" and "map_of al k = Some v"
  shows "sum_list (map f (AList.delete k al)) = sum_list (map f al) - (f (k, v) :: nat)"
proof -
  from assms(2) have "(k, v) \<in> set al" by (rule map_of_SomeD)
  then obtain ys zs where split: "al = ys @ (k, v) # zs"
    by (auto simp: in_set_conv_decomp)
  with assms(1) have "AList.delete k al = ys @ zs" by (simp add: delete_at)
  with split show ?thesis by simp
qed

lemma cluster_kept_refl [simp]: "cluster_kept c c"
  by (simp add: cluster_kept_def)

lemma cluster_kept_trans:
  assumes ab: "cluster_kept a b" and bc: "cluster_kept b c"
  shows "cluster_kept a c"
proof -
  let ?la = "length (devices a)" and ?lb = "length (devices b)"
  from ab have ta: "take ?la (devices b) = devices a" by (simp add: cluster_kept_def)
  from bc have tb: "take ?lb (devices c) = devices b" by (simp add: cluster_kept_def)
  have "length (take ?la (devices b)) = ?la" by (simp only: ta)
  then have la: "?la \<le> ?lb" by simp
  have "take ?la (devices c) = take ?la (take ?lb (devices c))"
    using la by (simp add: min_def)
  also have "\<dots> = devices a" by (simp only: tb ta)
  finally show ?thesis using ab bc by (simp add: cluster_kept_def)
qed

lemma cluster_kept_add_device [simp]: "cluster_kept c (add_device c dev now)"
  by (simp add: cluster_kept_def add_device_simps)

lemma school_step_refl [simp]: "school_step school school"
  by (auto simp: school_step_def)

lemma school_step_trans:
  assumes "school_step a b" and "school_step b c"
  shows "school_step a c"
  unfolding school_step_def
proof (intro conjI ballI)
  from assms show "lastClusterNumber a \<le> lastClusterNumber c"
    by (simp add: school_step_def)
next
  fix x assume x: "x \<in> set (clusters c)"
  obtain nm c'' where [simp]: "x = (nm, c'')" by (cases x)
  from assms(2) x consider c' where "(nm, c') \<in> set (clusters b)" "cluster_kept c' c''"
    | "lastClusterNumber b < clusterNumber c''"
    by (auto simp: school_step_def)
  then show "case x of (nm, c') \<Rightarrow>
      (\<exists>c. (nm, c) \<in> set (clusters a) \<and> cluster_kept c c') \<or>
      lastClusterNumber a < clusterNumber c'"
  proof cases
    case 1
    from assms(1) 1(1) consider c0 where "(nm, c0) \<in> set (clusters a)" "cluster_kept c0 c'"
      | "lastClusterNumber a < clusterNumber c'"
      by (auto simp: school_step_def)
    then show ?thesis
    proof cases
      case 1
      with \<open>cluster_kept c' c''\<close> show ?thesis by (auto intro: cluster_kept_trans)
    next
      case 2
      with \<open>cluster_kept c' c''\<close> show ?thesis by (simp add: cluster_kept_def)
    qed
  next
    case 2
    with assms(1) show ?thesis by (simp add: school_step_def)
  qed
qed

lemma set_delete_subset: "set (AList.delete k al) \<subseteq> set al"
  by (induction al) auto

lemma school_step_placed_existing:
  assumes "clusters school = ys @ (nm, c) # zs"
    and "clusters school' = ys @ (nm, c') # zs" and "cluster_kept c c'"
    and "lastClusterNumber school' = lastClusterNumber school"
  shows "school_step school school'"
  using assms by (auto simp: school_step_def)

lemma school_step_placed_new:
  assumes "clusters school' = clusters school @ [(nm, c)]"
    and "clusterNumber c = lastClusterNumber school + 1"
    and "lastClusterNumber school' = lastClusterNumber school + 1"
  shows "school_step school school'"
  using assms by (auto simp: school_step_def)

lemma school_step_delete:
  "school_step school (school\<lparr>totalDevices := t, clusters := AList.delete nm (clusters school)\<rparr>)"
  using set_delete_subset [of nm "clusters school"] by (auto simp: school_step_def)

lemma school_change_refl [simp]: "school_change sc school school"
  by (auto simp: school_change_def)

lemma school_change_step: "school_change sc school school' \<Longrightarrow> school_step school school'"
  unfolding school_change_def
proof (elim disjE conjE exE)
  assume "lastClusterNumber school' = lastClusterNumber school"
    and "\<forall>(nm, c') \<in> set (clusters school').
         \<exists>c. (nm, c) \<in> set (clusters school) \<and> cluster_kept c c'"
  then show ?thesis unfolding school_step_def by fastforce
next
  fix c
  assume "lastClusterNumber school' = lastClusterNumber school + 1"
    and "clusters school' =
           clusters school @ [(cluster_name sc (lastClusterNumber school + 1), c)]"
    and "clusterNumber c = lastClusterNumber school + 1"
  then show ?thesis by (intro school_step_placed_new) simp_all
qed

lemma school_change_placed_existing:
  assumes "clusters school = ys @ (nm, c) # zs"
    and "clusters school' = ys @ (nm, c') # zs" and "cluster_kept c c'"
    and "lastClusterNumber school' = lastClusterNumber school"
  shows "school_change sc school school'"
  using assms by (auto simp: school_change_def)

lemma school_change_delete:
  "school_change sc school
     (school\<lparr>totalDevices := t, clusters := AList.delete nm (clusters school)\<rparr>)"
  using set_delete_subset [of nm "clusters school"] by (auto simp: school_change_def)

text \<open>How one placement changes the entry of a school that exists.\<close>

lemma placeDevice_school_change:
  assumes inv: "state_inv s" and school: "schoolData s sc = Some school"
  shows "\<exists>school'. schoolData (fst (placeDevice s sc2 dev rnd now)) sc = Some school' \<and>
           school_change sc school school'"
  using inv
proof (cases rule: placeDevice_cases [where sc = sc2 and dev = dev and rnd = rnd and now = now])
  case inherited
  with school show ?thesis by auto
next
  case (existing nm c ys zs)
  with school show ?thesis by simp
next
  case polluted
  show ?thesis
  proof (cases "sc = sc2")
    case True
    with polluted school show ?thesis by simp
  next
    case False
    with polluted school show ?thesis by simp
  qed
next
  case (space nm c ys zs)
  show ?thesis
  proof (cases "sc = sc2")
    case True
    with space school have "school_change sc school (placed school nm (add_device c dev now))"
      by (intro school_change_placed_existing [of school ys nm c zs _ "add_device c dev now"])
         simp_all
    with True space school show ?thesis by simp
  next
    case False
    with space school show ?thesis by simp
  qed
next
  case (fresh n c)
  show ?thesis
  proof (cases "sc = sc2")
    case True
    with fresh school
    have "school_change sc school (placed (school\<lparr>lastClusterNumber := n\<rparr>) (cluster_name sc n) c)"
      by (simp add: school_change_def add_device_simps new_cluster_def)
    with True fresh school show ?thesis by simp
  next
    case False
    with fresh school show ?thesis by simp
  qed
qed

lemma delete_cluster_school_change:
  assumes school: "schoolData s sc = Some school"
  shows "\<exists>school'. schoolData (fst (delete_cluster s sc2 n)) sc = Some school' \<and>
           school_change sc school school'"
proof (cases rule: delete_cluster_cases [of s sc2 n])
  case (failed e)
  with school show ?thesis by simp
next
  case (removed school2 c)
  show ?thesis
  proof (cases "sc = sc2")
    case True
    with removed school have "school2 = school" by simp
    with True removed show ?thesis by (simp add: school_change_delete)
  next
    case False
    with removed school show ?thesis by simp
  qed
qed

lemma handle_school_change:
  assumes "state_inv s" and "schoolData s sc = Some school" and "r \<noteq> DeleteSchool sc"
  shows "\<exists>school'. schoolData (fst (handle s r)) sc = Some school' \<and>
           school_change sc school school'"
proof (cases r)
  case (PostGetHosts a b rnd now)
  show ?thesis
  proof (cases "falsy a \<or> falsy b")
    case True
    with PostGetHosts have "fst (handle s r) = s"
      by (simp add: fst_handle post_get_hosts_cases del: handle.simps)
    with assms(2) show ?thesis by simp
  next
    case False
    with PostGetHosts have "fst (handle s r) = fst (placeDevice s (the a) (the b) rnd now)"
      by (simp add: fst_handle post_get_hosts_cases del: handle.simps)
    with placeDevice_school_change [OF assms(1,2), of "the a" "the b" rnd now]
    show ?thesis by simp
  qed
next
  case (DeleteSchool sc2)
  with assms(3) have "sc2 \<noteq> sc" by simp
  with DeleteSchool have "schoolData (fst (handle s r)) sc = schoolData s sc"
    by (simp add: fst_handle delete_school_def del: handle.simps)
  with assms(2) show ?thesis by simp
next
  case (DeleteCluster sc2 n)
  then have "fst (handle s r) = fst (delete_cluster s sc2 n)"
    by (simp add: fst_handle del: handle.simps)
  with delete_cluster_school_change [OF assms(2), of sc2 n] show ?thesis by simp
next
  case (GetSchool sc2)
  with assms(2) show ?thesis by (simp add: fst_handle del: handle.simps)
next
  case (GetCluster sc2 n)
  with assms(2) show ?thesis by (simp add: fst_handle del: handle.simps)
next
  case GetHealth
  with assms(2) show ?thesis by (simp add: fst_handle del: handle.simps)
qed

lemma handle_deleted_school:
  "schoolData (fst (handle s (DeleteSchool sc))) sc = None \<or>
   schoolData (fst (handle s (DeleteSchool sc))) sc = schoolData s sc"
  by (simp add: fst_handle delete_school_def del: handle.simps)

lemma run_Cons: "run s (r # rs) = run (fst (handle s r)) rs"
  by (simp add: run_def)

lemma run_Nil [simp]: "run s [] = s"
  by (simp add: run_def)

lemma run_state_inv: "state_inv s \<Longrightarrow> state_inv (run s rs)"
  by (induction rs arbitrary: s) (simp_all add: run_Cons handle_state_inv)

lemma run_school_step:
  assumes "state_inv s" and "schoolData s sc = Some school" and "DeleteSchool sc \<notin> set rs"
  shows "\<exists>school'. schoolData (run s rs) sc = Some school' \<and> school_step school school'"
  using assms
proof (induction rs arbitrary: s school)
  case Nil
  then show ?case by simp
next
  case (Cons r rs)
  from Cons.prems have "r \<noteq> DeleteSchool sc" by auto
  from handle_school_change [OF Cons.prems(1,2) this]
  obtain school1 where s1: "schoolData (fst (handle s r)) sc = Some school1"
    and step1: "school_step school school1" by (auto dest: school_change_step)
  from Cons.prems have "DeleteSchool sc \<notin> set rs" by simp
  from Cons.IH [OF handle_state_inv [OF Cons.prems(1)] s1 this]
  obtain school' where s': "schoolData (run (fst (handle s r)) rs) sc = Some school'"
    and step': "school_step school1 school'" by auto
  from school_step_trans [OF step1 step'] s' show ?case
    unfolding run_Cons by (intro exI [of _ school']) simp
qed

lemma cluster_name_fresh:
  assumes "school_inv sc school"
  shows "cluster_name sc (lastClusterNumber school + 1) \<notin> fst ` set (clusters school)"
proof
  let ?n = "lastClusterNumber school + 1"
  assume "cluster_name sc ?n \<in> fst ` set (clusters school)"
  then obtain c' where "(cluster_name sc ?n, c') \<in> set (clusters school)" by auto
  from school_inv_cluster [OF assms this]
  have "cluster_name sc ?n = cluster_name sc (clusterNumber c')"
    and "clusterNumber c' \<le> lastClusterNumber school" by simp_all
  then show False using cluster_name_inj [of sc ?n "clusterNumber c'"] by simp
qed

lemma school_inv_number_unique:
  assumes "school_inv sc school" and "(nm, c) \<in> set (clusters school)"
    and "(nm', c') \<in> set (clusters school)" and "clusterNumber c' = clusterNumber c"
  shows "nm' = nm"
  using school_inv_cluster [OF assms(1,2)] school_inv_cluster [OF assms(1,3)] assms(4)
  by simp

lemma school_inv_map_of:
  assumes "school_inv sc school"
  shows "map_of (clusters school) nm = Some c \<longleftrightarrow> (nm, c) \<in> set (clusters school)"
  using school_inv_distinct [OF assms] by simp

lemma placeDevice_first_cluster:
  assumes "schoolData s sc = None" and "placeDevice s sc dev rnd now = (s', Inr r)"
  shows "res_clusterNumber r = 1 \<and> res_clusterName r = sc @ ''_1''"
proof -
  from assms have own: "schoolData s sc \<noteq> None \<or> \<not> inherited_name sc"
    by (cases "inherited_name sc") (simp_all add: placeDevice_inherited)
  from assms(1) have cur: "current_school s sc = new_school" by (simp add: current_school_def)
  from assms(2) show ?thesis
    unfolding placeDevice_own [OF own] cur
    by (auto simp: new_school_def Let_def compose_response_def add_device_simps new_cluster_def
        cluster_name_def show_nat_digit digit_char_def split: if_splits)
qed

lemma compose_response_simps [simp]:
  "res_schoolCode (compose_response sc dev nm c t) = sc"
  "res_clusterName (compose_response sc dev nm c t) = nm"
  "res_clusterNumber (compose_response sc dev nm c t) = clusterNumber c"
  "res_deviceId (compose_response sc dev nm c t) = dev"
  "res_frequency (compose_response sc dev nm c t) = frequency c"
  "totalDevicesInCluster (compose_response sc dev nm c t) = length (devices c)"
  "totalDevicesInSchool (compose_response sc dev nm c t) = t"
  "clusterDevices (compose_response sc dev nm c t) = map deviceId (devices c)"
  "clusterHosts (compose_response sc dev nm c t) = all_hosts (hosts c)"
  "positionInCluster (compose_response sc dev nm c t) =
     findIndex (\<lambda>d. deviceId d = dev) (devices c) + 1"
  "res_role (compose_response sc dev nm c t) =
     derive_role (findIndex (\<lambda>d. deviceId d = dev) (devices c)) dev (hosts c)"
  by (simp_all add: compose_response_def Let_def)

text \<open>The cluster a placement answers about, as it is stored after the request.\<close>

lemma placeDevice_answer:
  assumes inv: "state_inv s" and place: "placeDevice s sc dev rnd now = (s', Inr r)"
  obtains c where "(res_clusterName r, c) \<in> set (clusters (current_school s' sc))"
    and "r = compose_response sc dev (res_clusterName r) c (totalDevices (current_school s' sc))"
    and "has_device c dev"
    and "res_clusterName r \<in> set (map fst (clusters (current_school s sc))) \<longrightarrow>
         (\<exists>c0. (res_clusterName r, c0) \<in> set (clusters (current_school s sc)) \<and>
               cluster_kept c0 c)"
    and "res_clusterName r \<notin> set (map fst (clusters (current_school s sc))) \<longrightarrow>
         c = add_device (new_cluster (lastClusterNumber (current_school s sc) + 1) rnd now) dev now \<and>
         res_clusterName r = cluster_name sc (lastClusterNumber (current_school s sc) + 1)"
  using inv
proof (cases rule: placeDevice_cases [where sc = sc and dev = dev and rnd = rnd and now = now])
  case inherited
  with place show ?thesis by (simp split: if_splits)
next
  case polluted
  with place show ?thesis by simp
next
  case (existing nm c ys zs)
  from existing(1) have cur: "schoolData s sc = Some (current_school s sc)"
    by (auto simp: current_school_def)
  from existing place have "s' = s" and r: "r = compose_response sc dev nm c (totalDevices (current_school s sc))"
    by simp_all
  with existing show ?thesis
    by (intro that [of c]) (auto simp: image_iff)
next
  case (space nm c ys zs)
  from space place have s': "current_school s' sc = placed (current_school s sc) nm (add_device c dev now)"
    and r: "r = compose_response sc dev nm (add_device c dev now) (totalDevices (current_school s sc) + 1)"
    by auto
  show ?thesis
  proof (rule that [of "add_device c dev now"])
    show "(res_clusterName r, add_device c dev now) \<in> set (clusters (current_school s' sc))"
      using space s' r by simp
    show "r = compose_response sc dev (res_clusterName r) (add_device c dev now)
                (totalDevices (current_school s' sc))"
      using s' r by simp
    show "has_device (add_device c dev now) dev"
      by (simp add: has_device_iff add_device_simps)
    show "res_clusterName r \<in> set (map fst (clusters (current_school s sc))) \<longrightarrow>
         (\<exists>c0. (res_clusterName r, c0) \<in> set (clusters (current_school s sc)) \<and>
               cluster_kept c0 (add_device c dev now))"
      using space r by (intro impI exI [of _ c]) simp
    show "res_clusterName r \<notin> set (map fst (clusters (current_school s sc))) \<longrightarrow>
         add_device c dev now =
           add_device (new_cluster (lastClusterNumber (current_school s sc) + 1) rnd now) dev now \<and>
         res_clusterName r = cluster_name sc (lastClusterNumber (current_school s sc) + 1)"
      using space r by (simp add: image_iff)
  qed
next
  case (fresh n c)
  from fresh place have s': "current_school s' sc =
      placed (current_school s sc\<lparr>lastClusterNumber := n\<rparr>) (cluster_name sc n) c"
    and r: "r = compose_response sc dev (cluster_name sc n) c (totalDevices (current_school s sc) + 1)"
    by auto
  show ?thesis
  proof (rule that [of c])
    show "(res_clusterName r, c) \<in> set (clusters (current_school s' sc))"
      using fresh s' r by simp
    show "r = compose_response sc dev (res_clusterName r) c (totalDevices (current_school s' sc))"
      using s' r by simp
    show "has_device c dev"
      using fresh by (simp add: has_device_iff add_device_simps)
    show "res_clusterName r \<in> set (map fst (clusters (current_school s sc))) \<longrightarrow>
         (\<exists>c0. (res_clusterName r, c0) \<in> set (clusters (current_school s sc)) \<and> cluster_kept c0 c)"
      using cluster_name_fresh [OF current_school_inv [OF inv, of sc]] fresh r by simp
    show "res_clusterName r \<notin> set (map fst (clusters (current_school s sc))) \<longrightarrow>
         c = add_device (new_cluster (lastClusterNumber (current_school s sc) + 1) rnd now) dev now \<and>
         res_clusterName r = cluster_name sc (lastClusterNumber (current_school s sc) + 1)"
      using fresh r by simp
  qed
qed

lemma school_inv_same_name:
  assumes "school_inv sc school" and "(nm, c) \<in> set (clusters school)"
    and "(nm, c') \<in> set (clusters school)"
  shows "c' = c"
  using assms(2,3) school_inv_map_of [OF assms(1), of nm c]
    school_inv_map_of [OF assms(1), of nm c'] by simp

lemma first_split_unique:
  assumes "ys @ x # zs = ys' @ x' # zs'" and "P x" and "P x'"
    and "\<forall>y\<in>set ys. \<not> P y" and "\<forall>y\<in>set ys'. \<not> P y"
  shows "ys = ys' \<and> x = x' \<and> zs = zs'"
  using assms
proof (induction ys arbitrary: ys')
  case Nil
  then show ?case by (cases ys') auto
next
  case (Cons a ys)
  then show ?case by (cases ys') auto
qed

lemma placeDevice_answers:
  assumes "state_inv s" and "\<not> polluted s" and "\<not> inherited_name sc \<or> schoolData s sc \<noteq> None"
  shows "\<exists>r. snd (placeDevice s sc dev rnd now) = Inr r"
  using assms(1)
proof (cases rule: placeDevice_cases [where sc = sc and dev = dev and rnd = rnd and now = now])
  case inherited
  with assms(3) show ?thesis by simp
next
  case polluted
  with assms(2) show ?thesis by simp
qed simp_all

lemma full_state:
  "run empty_state ten_devices = \<lparr>schoolData = [''S'' \<mapsto> full_school], polluted = False\<rparr>"
  by (simp add: run_def ten_devices_def eval_defs full_school_def full_cluster_def
      getRandomFrequency_def FREQUENCY_CHANNELS_def)

lemma find_split_Some:
  "\<forall>y\<in>set ys. \<not> P y \<Longrightarrow> P x \<Longrightarrow> List.find P (ys @ x # zs) = Some x"
  by (induction ys) auto

lemma placeDevice_existing:
  assumes "clusters (current_school s sc) = ys @ (nm, c) # zs" and "has_device c dev"
    and "\<forall>(k, v)\<in>set ys. \<not> has_device v dev"
  shows "placeDevice s sc dev rnd now =
           (s, Inr (compose_response sc dev nm c (totalDevices (current_school s sc))))"
proof -
  from assms(1) have ex: "schoolData s sc \<noteq> None"
    by (auto simp: current_school_def new_school_def split: option.splits)
  then obtain school where school: "schoolData s sc = Some school" by auto
  then have same: "s\<lparr>schoolData := (schoolData s)(sc \<mapsto> current_school s sc)\<rparr> = s"
    by (simp add: map_upd_triv)
  have "List.find (\<lambda>(nm, c). has_device c dev) (ys @ (nm, c) # zs) = Some (nm, c)"
    using assms(2,3) by (intro find_split_Some) auto
  with assms(1)
  have "List.find (\<lambda>(nm, c). has_device c dev) (clusters (current_school s sc)) = Some (nm, c)"
    by simp
  with ex same show ?thesis by (simp add: placeDevice_own Let_def)
qed

lemma devices_of_current:
  "devices_of s sc nm =
     (case map_of (clusters (current_school s sc)) nm of None \<Rightarrow> [] | Some c \<Rightarrow> devices c)"
  by (simp add: devices_of_def current_school_def new_school_def split: option.splits)

lemma devices_of_upd:
  "devices_of (s\<lparr>schoolData := (schoolData s)(sc \<mapsto> school)\<rparr>) sc' nm =
     (if sc' = sc
      then (case map_of (clusters school) nm of None \<Rightarrow> [] | Some c \<Rightarrow> devices c)
      else devices_of s sc' nm)"
  by (simp add: devices_of_def)

lemma devices_of_polluted [simp]: "devices_of (s\<lparr>polluted := b\<rparr>) sc nm = devices_of s sc nm"
  by (simp add: devices_of_def)

lemma current_school_upd [simp]:
  "current_school (s\<lparr>schoolData := (schoolData s)(sc \<mapsto> school)\<rparr>) sc = school"
  by (simp add: current_school_def)

lemma placeDevice_devices_of:
  assumes inv: "state_inv s" and place: "placeDevice s sc dev rnd now = (s1, out)"
  shows "devices_of s1 sc' nm = devices_of s sc' nm \<or>
         devices_of s1 sc' nm = devices_of s sc' nm @ [\<lparr>deviceId = dev, registeredAt = now\<rparr>]"
  using inv
proof (cases rule: placeDevice_cases [where sc = sc and dev = dev and rnd = rnd and now = now])
  case inherited
  with place show ?thesis by (auto split: if_splits)
next
  case (existing nm0 c ys zs)
  with place show ?thesis by simp
next
  case polluted
  with place have s1: "s1 = s\<lparr>schoolData := (schoolData s)(sc \<mapsto> current_school s sc)\<rparr>"
    by simp
  have "devices_of s1 sc' nm = (if sc' = sc then devices_of s sc nm else devices_of s sc' nm)"
    unfolding s1 devices_of_upd by (simp only: devices_of_current [of s sc])
  then show ?thesis by simp
next
  case (space nm0 c ys zs)
  note sinv = current_school_inv [OF inv, of sc]
  from space(4) have "(nm0, c) \<in> set (clusters (current_school s sc))" by simp
  with school_inv_map_of [OF sinv] have old: "map_of (clusters (current_school s sc)) nm0 = Some c"
    by simp
  from space place
  have s1: "s1 = s\<lparr>schoolData := (schoolData s)(sc \<mapsto>
                placed (current_school s sc) nm0 (add_device c dev now))\<rparr>"
    by simp
  show ?thesis
  proof (cases "sc' = sc")
    case False
    then show ?thesis by (simp add: s1 devices_of_upd)
  next
    case True
    have "devices_of s1 sc nm =
        (if nm = nm0 then devices c @ [\<lparr>deviceId = dev, registeredAt = now\<rparr>]
         else devices_of s sc nm)"
      unfolding s1 devices_of_upd devices_of_current [of s sc]
      by (simp add: placed_def update_conv' add_device_simps)
    moreover from old have "devices_of s sc nm0 = devices c"
      by (simp add: devices_of_current [of s sc])
    ultimately show ?thesis using True by auto
  qed
next
  case (fresh n c)
  note sinv = current_school_inv [OF inv, of sc]
  from cluster_name_fresh [OF sinv] fresh(5)
  have old: "map_of (clusters (current_school s sc)) (cluster_name sc n) = None"
    by (simp add: map_of_eq_None_iff)
  from fresh place
  have s1: "s1 = s\<lparr>schoolData := (schoolData s)(sc \<mapsto>
                placed (current_school s sc\<lparr>lastClusterNumber := n\<rparr>) (cluster_name sc n) c)\<rparr>"
    by simp
  show ?thesis
  proof (cases "sc' = sc")
    case False
    then show ?thesis by (simp add: s1 devices_of_upd)
  next
    case True
    have "devices_of s1 sc nm =
        (if nm = cluster_name sc n then [\<lparr>deviceId = dev, registeredAt = now\<rparr>]
         else devices_of s sc nm)"
      unfolding s1 devices_of_upd devices_of_current [of s sc]
      by (simp add: placed_def update_conv' fresh(6) add_device_simps new_cluster_def)
    moreover from old have "devices_of s sc (cluster_name sc n) = []"
      by (simp add: devices_of_current [of s sc])
    ultimately show ?thesis using True by auto
  qed
qed

lemma placeDevice_twice:
  assumes inv: "state_inv s" and place: "placeDevice s sc dev rnd now = (s1, out1)"
  shows "placeDevice s1 sc dev rnd' now' = (s1, out1)"
  using inv
proof (cases rule: placeDevice_cases [where sc = sc and dev = dev and rnd = rnd and now = now])
  case inherited
  with place have s1: "s1 = (if sc = ''__proto__'' then s\<lparr>polluted := True\<rparr> else s)"
    and out1: "out1 = Inl InternalError" by simp_all
  from s1 inherited(1) have "schoolData s1 sc = None" by (simp split: if_splits)
  from placeDevice_inherited [OF this inherited(2), of dev rnd' now'] s1 out1
  show ?thesis by simp
next
  case (existing nm c ys zs)
  with place have "s1 = s"
    and "out1 = Inr (compose_response sc dev nm c (totalDevices (current_school s sc)))"
    by auto
  with placeDevice_existing [OF existing(2-4), of rnd' now'] show ?thesis by simp
next
  case polluted
  let ?cur = "current_school s sc"
  from polluted place have s1: "s1 = s\<lparr>schoolData := (schoolData s)(sc \<mapsto> ?cur)\<rparr>"
    and out1: "out1 = Inl InternalError" by simp_all
  from s1 have own: "schoolData s1 sc \<noteq> None \<or> \<not> inherited_name sc" by simp
  from s1 have cur: "current_school s1 sc = ?cur" by simp
  from polluted(3) have "List.find (\<lambda>(nm, c). has_device c dev) (clusters ?cur) = None"
    by (auto simp: find_None_set)
  moreover from s1 polluted(1) have "polluted s1" by simp
  moreover from s1 have "s1\<lparr>schoolData := (schoolData s1)(sc \<mapsto> ?cur)\<rparr> = s1" by simp
  ultimately show ?thesis
    using out1 by (simp add: placeDevice_own [OF own] cur)
next
  case (space nm c ys zs)
  let ?school = "placed (current_school s sc) nm (add_device c dev now)"
  from space place have s1: "s1 = s\<lparr>schoolData := (schoolData s)(sc \<mapsto> ?school)\<rparr>"
    and out1: "out1 = Inr (compose_response sc dev nm (add_device c dev now)
                        (totalDevices (current_school s sc) + 1))"
    by simp_all
  from s1 have cur: "current_school s1 sc = ?school" by simp
  have "placeDevice s1 sc dev rnd' now' =
      (s1, Inr (compose_response sc dev nm (add_device c dev now)
                 (totalDevices (current_school s1 sc))))"
  proof (rule placeDevice_existing)
    show "clusters (current_school s1 sc) = ys @ (nm, add_device c dev now) # zs"
      using cur space(7) by simp
    show "has_device (add_device c dev now) dev"
      by (simp add: has_device_iff add_device_simps)
    show "\<forall>(k, v)\<in>set ys. \<not> has_device v dev"
      using space(3,4) by auto
  qed
  with cur out1 show ?thesis by simp
next
  case (fresh n c)
  let ?school = "placed (current_school s sc\<lparr>lastClusterNumber := n\<rparr>) (cluster_name sc n) c"
  from fresh place have s1: "s1 = s\<lparr>schoolData := (schoolData s)(sc \<mapsto> ?school)\<rparr>"
    and out1: "out1 = Inr (compose_response sc dev (cluster_name sc n) c
                        (totalDevices (current_school s sc) + 1))"
    by simp_all
  from s1 have cur: "current_school s1 sc = ?school" by simp
  have "placeDevice s1 sc dev rnd' now' =
      (s1, Inr (compose_response sc dev (cluster_name sc n) c
                 (totalDevices (current_school s1 sc))))"
  proof (rule placeDevice_existing)
    show "clusters (current_school s1 sc) =
        clusters (current_school s sc) @ (cluster_name sc n, c) # []"
      using cur fresh(7) by simp
    show "has_device c dev"
      using fresh(6) by (simp add: has_device_iff add_device_simps)
    show "\<forall>(k, v)\<in>set (clusters (current_school s sc)). \<not> has_device v dev"
      by (rule fresh(3))
  qed
  with cur out1 show ?thesis by simp
qed

lemma flat_current_school_upd [simp]:
  "flat_current_school (s\<lparr>flat_schoolData := (flat_schoolData s)(sc \<mapsto> school)\<rparr>) sc = school"
  by (simp add: flat_current_school_def)

lemma flat_placeDevice_twice:
  assumes place: "flat_placeDevice s sc dev now = (s1, out1)"
  shows "flat_placeDevice s1 sc dev now' = (s1, out1)"
proof (cases "flat_schoolData s sc \<noteq> None \<or> \<not> inherited_name sc")
  case False
  with place have "s1 = s" and "out1 = Inl InternalError"
    by (simp_all add: flat_placeDevice_inherited)
  with False show ?thesis by (simp add: flat_placeDevice_inherited)
next
  case True
  let ?cur = "flat_current_school s sc"
  let ?school = "if flat_has_device ?cur dev then ?cur else flat_add_device ?cur dev now"
  from place have s1: "s1 = s\<lparr>flat_schoolData := (flat_schoolData s)(sc \<mapsto> ?school)\<rparr>"
    and out1: "out1 = Inr (flat_compose_response sc dev ?school)"
    by (simp_all add: flat_placeDevice_own [OF True] Let_def)
  from s1 have own: "flat_schoolData s1 sc \<noteq> None \<or> \<not> inherited_name sc" by simp
  from s1 have cur: "flat_current_school s1 sc = ?school" by simp
  have has: "flat_has_device ?school dev"
    by (simp add: flat_has_device_def flat_add_device_simps)
  from s1 have "s1\<lparr>flat_schoolData := (flat_schoolData s1)(sc \<mapsto> ?school)\<rparr> = s1" by simp
  with has out1 show ?thesis
    by (simp add: flat_placeDevice_own [OF own] cur Let_def)
qed

lemma flat_placeDevice_devices_of:
  assumes place: "flat_placeDevice s sc dev now = (s1, out)"
  shows "flat_devices_of s1 sc' = flat_devices_of s sc' \<or>
         flat_devices_of s1 sc' = flat_devices_of s sc' @ [\<lparr>deviceId = dev, registeredAt = now\<rparr>]"
proof (cases "flat_schoolData s sc \<noteq> None \<or> \<not> inherited_name sc")
  case False
  with place show ?thesis by (simp add: flat_placeDevice_inherited)
next
  case True
  let ?cur = "flat_current_school s sc"
  let ?school = "if flat_has_device ?cur dev then ?cur else flat_add_device ?cur dev now"
  from place have s1: "s1 = s\<lparr>flat_schoolData := (flat_schoolData s)(sc \<mapsto> ?school)\<rparr>"
    by (simp add: flat_placeDevice_own [OF True] Let_def)
  have cur: "flat_devices_of s sc = school_devices ?cur"
    by (simp add: flat_devices_of_def flat_current_school_def flat_new_school_def
        split: option.splits)
  have "flat_devices_of s1 sc' =
      (if sc' = sc then school_devices ?school else flat_devices_of s sc')"
    unfolding s1 by (simp add: flat_devices_of_def)
  with cur show ?thesis by (simp add: flat_add_device_simps)
qed

lemma four_devices_state:
  "run empty_state four_devices = \<lparr>schoolData = [''ABC'' \<mapsto> example_school], polluted = False\<rparr>"
  by (simp add: run_def four_devices_def scenario_def eval_defs example_school_def
      example_cluster_def getRandomFrequency_def FREQUENCY_CHANNELS_def)

lemma flat_four_devices_state:
  "flat_run flat_empty_state flat_four_devices =
     \<lparr>flat_schoolData = [''ABC'' \<mapsto> example_flat_school]\<rparr>"
  by (simp add: flat_run_def flat_four_devices_def flat_scenario_def eval_defs
      example_flat_school_def)

lemma polluting_requests_state:
  "run empty_state polluting_requests =
     \<lparr>schoolData = [''ABC'' \<mapsto>
        \<lparr>clusters = [(''ABC_1'',
            \<lparr>clusterNumber = 1, devices = [\<lparr>deviceId = ''d1'', registeredAt = 1\<rparr>],
             hosts = [''d1''], frequency = 5320, createdAt = 1\<rparr>)],
         totalDevices = 1, lastClusterNumber = 1\<rparr>],
      polluted = True\<rparr>"
  by (simp add: run_def polluting_requests_def eval_defs getRandomFrequency_def
      FREQUENCY_CHANNELS_def)

text \<open>The frequency of a cluster: where it comes from and where it is reported.\<close>

lemma cluster_frequency_facts:
  assumes "reachable s" and "schoolData s sc = Some school" and "(nm, c) \<in> set (clusters school)"
  shows "frequency c \<in> set FREQUENCY_CHANNELS \<and> length FREQUENCY_CHANNELS = 25 \<and>
    (\<forall>rs school' c'. DeleteSchool sc \<notin> set rs \<longrightarrow> schoolData (run s rs) sc = Some school' \<longrightarrow>
       (nm, c') \<in> set (clusters school') \<longrightarrow> frequency c' = frequency c) \<and>
    (\<forall>dev rnd now s' r. placeDevice s sc dev rnd now = (s', Inr r) \<longrightarrow>
       (res_clusterName r = nm \<longrightarrow> res_frequency r = frequency c) \<and>
       (res_clusterName r \<notin> set (map fst (clusters school)) \<longrightarrow>
          res_frequency r = getRandomFrequency rnd) \<and>
       map_option frequency (map_of (clusters (current_school s' sc)) (res_clusterName r)) =
         Some (res_frequency r)) \<and>
    (\<forall>n d. get_cluster s sc n = Inr d \<longrightarrow> cd_clusterName d = nm \<longrightarrow>
       cd_frequency d = frequency c) \<and>
    (\<forall>sm. get_school s sc = Inr sm \<longrightarrow>
       map_option sum_frequency (map_of (ss_clusters sm) nm) = Some (frequency c))"
proof (intro conjI allI impI)
  note inv = reachable_state_inv [OF assms(1)]
  note sinv = reachable_school_inv [OF assms(1,2)]
  from school_inv_cluster [OF sinv assms(3)]
  show "frequency c \<in> set FREQUENCY_CHANNELS" by (simp add: cluster_inv_def)
  show "length FREQUENCY_CHANNELS = 25" by (simp add: FREQUENCY_CHANNELS_def)
  {
    fix rs school' c'
    assume rs: "DeleteSchool sc \<notin> set rs" and after: "schoolData (run s rs) sc = Some school'"
      and mem': "(nm, c') \<in> set (clusters school')"
    from run_school_step [OF inv assms(2) rs] after
    have step: "school_step school school'" by simp
    from run_state_inv [OF inv, of rs] after have sinv': "school_inv sc school'"
      by (simp add: state_inv_def)
    from step mem' consider c0 where "(nm, c0) \<in> set (clusters school)" "cluster_kept c0 c'"
      | "lastClusterNumber school < clusterNumber c'"
      by (auto simp: school_step_def)
    then show "frequency c' = frequency c"
    proof cases
      case 1
      from school_inv_same_name [OF sinv assms(3) 1(1)] 1(2) show ?thesis
        by (simp add: cluster_kept_def)
    next
      case 2
      from school_inv_cluster [OF sinv assms(3)] school_inv_cluster [OF sinv' mem']
      have "cluster_name sc (clusterNumber c') = cluster_name sc (clusterNumber c)"
        and "clusterNumber c \<le> lastClusterNumber school" by simp_all
      with 2 show ?thesis by (auto dest: cluster_name_inj)
    qed
  }
  {
    fix dev rnd now s' r
    assume place: "placeDevice s sc dev rnd now = (s', Inr r)"
    from placeDevice_answer [OF inv place] obtain c1
      where mem1: "(res_clusterName r, c1) \<in> set (clusters (current_school s' sc))"
        and r: "r = compose_response sc dev (res_clusterName r) c1 (totalDevices (current_school s' sc))"
        and old: "res_clusterName r \<in> set (map fst (clusters (current_school s sc))) \<longrightarrow>
           (\<exists>c0. (res_clusterName r, c0) \<in> set (clusters (current_school s sc)) \<and>
                 cluster_kept c0 c1)"
        and new: "res_clusterName r \<notin> set (map fst (clusters (current_school s sc))) \<longrightarrow>
           c1 = add_device (new_cluster (lastClusterNumber (current_school s sc) + 1) rnd now) dev now \<and>
           res_clusterName r = cluster_name sc (lastClusterNumber (current_school s sc) + 1)"
      by blast
    have f: "res_frequency r = frequency c1"
      using arg_cong [OF r, of res_frequency] by simp
    show "res_frequency r = frequency c" if "res_clusterName r = nm"
    proof -
      from that assms(3) have "res_clusterName r \<in> set (map fst (clusters school))"
        by force
      with that assms(2) old obtain c0 where "(nm, c0) \<in> set (clusters school)"
        and "cluster_kept c0 c1" by auto
      with school_inv_same_name [OF sinv assms(3)] f show ?thesis
        by (auto simp: cluster_kept_def)
    qed
    show "res_frequency r = getRandomFrequency rnd"
      if "res_clusterName r \<notin> set (map fst (clusters school))"
      using that new assms(2) f by (simp add: add_device_simps new_cluster_def)
    have "state_inv s'"
      using placeDevice_state_inv [OF inv, of sc dev rnd now] place by simp
    from school_inv_map_of [OF current_school_inv [OF this, of sc], of "res_clusterName r" c1] mem1
    have "map_of (clusters (current_school s' sc)) (res_clusterName r) = Some c1" by simp
    with f show "map_option frequency (map_of (clusters (current_school s' sc)) (res_clusterName r)) =
         Some (res_frequency r)" by simp
  }
  {
    fix n d
    assume "get_cluster s sc n = Inr d" and "cd_clusterName d = nm"
    with assms(2) school_inv_map_of [OF sinv, of nm c] assms(3)
    show "cd_frequency d = frequency c"
      by (auto simp: get_cluster_def Let_def getProperty_Own split: if_splits property.splits)
  }
  {
    fix sm
    assume "get_school s sc = Inr sm"
    with assms(2) have "ss_clusters sm = map (\<lambda>(nm, c). (nm, summarize c)) (clusters school)"
      by (auto simp: get_school_def Let_def split: if_splits)
    moreover have "map_of (map (\<lambda>(nm, c). (nm, summarize c)) (clusters school)) nm =
        map_option summarize (map_of (clusters school) nm)"
      by (induction "clusters school" rule: list.induct) (simp_all add: map_of_map)
    ultimately show "map_option sum_frequency (map_of (ss_clusters sm) nm) = Some (frequency c)"
      using school_inv_map_of [OF sinv, of nm c] assms(3) by (simp add: summarize_def)
  }
qed

lemma get_cluster_own:
  assumes "schoolData s sc = Some school" and "map_of (clusters school) (sc @ ''_'' @ n) = Some c"
  shows "get_cluster s sc n =
     Inr \<lparr>cd_schoolCode = sc, cd_clusterName = sc @ ''_'' @ n,
          cd_clusterNumber = clusterNumber c, cd_totalDevices = length (devices c),
          cd_maxDevices = MAX_DEVICES_PER_CLUSTER,
          cd_isFull = (length (devices c) \<ge> MAX_DEVICES_PER_CLUSTER),
          cd_hosts = hosts c, cd_devices = devices c, cd_createdAt = createdAt c,
          cd_frequency = frequency c\<rparr>"
  using assms by (simp add: get_cluster_def)

lemma get_school_own:
  assumes "schoolData s sc = Some school" and "\<not> polluted s"
  shows "get_school s sc =
     Inr \<lparr>ss_schoolCode = sc, ss_totalDevices = totalDevices school,
          ss_totalClusters = length (clusters school),
          ss_lastClusterNumber = lastClusterNumber school,
          ss_maxDevicesPerCluster = MAX_DEVICES_PER_CLUSTER,
          ss_clusters = map (\<lambda>(nm, c). (nm, summarize c)) (clusters school)\<rparr>"
  using assms by (simp add: get_school_def)

lemma placeDevice_frequency:
  assumes inv: "state_inv s" and place: "placeDevice s sc dev rnd now = (s', Inr r)"
  shows "res_frequency r \<in> set FREQUENCY_CHANNELS \<and>
     map_option frequency (map_of (clusters (current_school s' sc)) (res_clusterName r)) =
       Some (res_frequency r) \<and>
     (res_clusterName r \<notin> set (map fst (clusters (current_school s sc))) \<longrightarrow>
        res_frequency r = getRandomFrequency rnd) \<and>
     (\<forall>c0. (res_clusterName r, c0) \<in> set (clusters (current_school s sc)) \<longrightarrow>
        res_frequency r = frequency c0)"
proof -
  from placeDevice_answer [OF inv place] obtain c1
    where mem1: "(res_clusterName r, c1) \<in> set (clusters (current_school s' sc))"
      and r: "r = compose_response sc dev (res_clusterName r) c1 (totalDevices (current_school s' sc))"
      and old: "res_clusterName r \<in> set (map fst (clusters (current_school s sc))) \<longrightarrow>
         (\<exists>c0. (res_clusterName r, c0) \<in> set (clusters (current_school s sc)) \<and>
               cluster_kept c0 c1)"
      and new: "res_clusterName r \<notin> set (map fst (clusters (current_school s sc))) \<longrightarrow>
         c1 = add_device (new_cluster (lastClusterNumber (current_school s sc) + 1) rnd now) dev now \<and>
         res_clusterName r = cluster_name sc (lastClusterNumber (current_school s sc) + 1)"
    by blast
  have f: "res_frequency r = frequency c1"
    using arg_cong [OF r, of res_frequency] by simp
  have inv': "state_inv s'"
    using placeDevice_state_inv [OF inv, of sc dev rnd now] place by simp
  note sinv' = current_school_inv [OF inv', of sc]
  note sinv = current_school_inv [OF inv, of sc]
  from school_inv_cluster [OF sinv' mem1] f
  have a: "res_frequency r \<in> set FREQUENCY_CHANNELS" by (simp add: cluster_inv_def)
  from school_inv_map_of [OF sinv', of "res_clusterName r" c1] mem1
  have "map_of (clusters (current_school s' sc)) (res_clusterName r) = Some c1" by simp
  with f have b: "map_option frequency
      (map_of (clusters (current_school s' sc)) (res_clusterName r)) = Some (res_frequency r)"
    by simp
  from new f have c: "res_clusterName r \<notin> set (map fst (clusters (current_school s sc))) \<longrightarrow>
        res_frequency r = getRandomFrequency rnd"
    by (simp add: add_device_simps new_cluster_def)
  have d: "res_frequency r = frequency c0"
    if m: "(res_clusterName r, c0) \<in> set (clusters (current_school s sc))" for c0
  proof -
    from m have "res_clusterName r \<in> set (map fst (clusters (current_school s sc)))" by force
    with old obtain c0' where m': "(res_clusterName r, c0') \<in> set (clusters (current_school s sc))"
      and kept: "cluster_kept c0' c1" by auto
    from school_inv_same_name [OF sinv m m'] kept f show ?thesis
      by (simp add: cluster_kept_def)
  qed
  from a b c d show ?thesis by blast
qed

text \<open>Roles follow the role table; requests for other school codes leave a school alone.\<close>

lemma derive_role_table:
  assumes "hs = take 3 ids" and "0 \<le> fi" and "nat fi < length ids"
  shows "derive_role fi dev hs = role_table (nat fi) dev hs"
proof -
  consider "fi = 0" | "fi = 1" | "fi = 2" | "3 \<le> fi" using assms(2) by linarith
  then show ?thesis
  proof cases
    case 1
    then show ?thesis by (simp add: derive_role_def role_table_def)
  next
    case 2
    with assms show ?thesis by (auto simp: derive_role_def role_table_def at_index_def)
  next
    case 3
    with assms show ?thesis by (auto simp: derive_role_def role_table_def at_index_def)
  next
    case 4
    then have "nat fi \<noteq> 0" "nat fi \<noteq> 1" "nat fi \<noteq> 2" "fi \<noteq> 0" "fi \<noteq> 1" "fi \<noteq> 2"
      by linarith+
    moreover from 4 assms(3) have "3 < length ids \<or> 3 = length ids \<or> 3 < length ids" by linarith
    ultimately show ?thesis using assms(1,3) 4
      by (auto simp: derive_role_def role_table_def at_index_def)
  qed
qed

lemma all_hosts_null:
  "(length hs \<le> 0 \<longrightarrow> slot_host1 (all_hosts hs) = None) \<and>
   (length hs \<le> 1 \<longrightarrow> slot_host2 (all_hosts hs) = None) \<and>
   (length hs \<le> 2 \<longrightarrow> slot_host3 (all_hosts hs) = None)"
  by (simp add: all_hosts_def at_index_def or_null_def falsy_def)

lemma follows_table_compose:
  assumes "hs = take 3 (map deviceId ds)" and "dev \<in> set (map deviceId ds)"
  shows "follows_table dev ds hs (findIndex (\<lambda>d. deviceId d = dev) ds + 1)
           (derive_role (findIndex (\<lambda>d. deviceId d = dev) ds) dev hs) (all_hosts hs)"
proof -
  let ?fi = "findIndex (\<lambda>d. deviceId d = dev) ds"
  from assms(2) have ex: "\<exists>x\<in>set ds. deviceId x = dev" by auto
  note found = findIndex_found [OF ex]
  from findIndex_cases [of "\<lambda>d. deviceId d = dev" ds] ex
  have first: "\<forall>j < nat ?fi. deviceId (ds ! j) \<noteq> dev" by auto
  from found(1,2) have "derive_role ?fi dev hs = role_table (nat ?fi) dev hs"
    by (intro derive_role_table [OF assms(1)]) simp_all
  with found first have "nat ?fi < length ds \<and> deviceId (ds ! nat ?fi) = dev \<and>
      (\<forall>j<nat ?fi. deviceId (ds ! j) \<noteq> dev) \<and> ?fi + 1 = int (nat ?fi) + 1 \<and>
      derive_role ?fi dev hs = role_table (nat ?fi) dev hs"
    by simp
  then show ?thesis
    unfolding follows_table_def using all_hosts_null [of hs] by blast
qed


lemma placeDevice_frame:
  assumes "state_inv s" and "sc2 \<noteq> sc"
  shows "schoolData (fst (placeDevice s sc2 dev rnd now)) sc = schoolData s sc"
  using assms(1)
proof (cases rule: placeDevice_cases [where sc = sc2 and dev = dev and rnd = rnd and now = now])
  case inherited
  then show ?thesis by (simp split: if_splits)
qed (use assms(2) in simp_all)

lemma delete_cluster_frame:
  assumes "sc2 \<noteq> sc"
  shows "schoolData (fst (delete_cluster s sc2 n)) sc = schoolData s sc"
  by (cases rule: delete_cluster_cases [of s sc2 n]) (use assms in simp_all)

lemma handle_frame:
  assumes "state_inv s" and "request_school q \<noteq> Some sc"
  shows "schoolData (fst (handle s q)) sc = schoolData s sc"
proof (cases q)
  case (PostGetHosts a b rnd now)
  show ?thesis
  proof (cases "falsy a \<or> falsy b")
    case True
    with PostGetHosts show ?thesis
      by (simp add: fst_handle post_get_hosts_cases del: handle.simps)
  next
    case False
    then obtain sc2 where a: "a = Some sc2" by (cases a) (simp_all add: falsy_def)
    with assms(2) PostGetHosts have "sc2 \<noteq> sc" by simp
    from placeDevice_frame [OF assms(1) this] False PostGetHosts a show ?thesis
      by (simp add: fst_handle post_get_hosts_cases del: handle.simps)
  qed
next
  case (DeleteSchool sc2)
  with assms(2) show ?thesis
    by (auto simp: fst_handle delete_school_def simp del: handle.simps)
next
  case (DeleteCluster sc2 n)
  with assms(2) show ?thesis
    by (simp add: fst_handle delete_cluster_frame del: handle.simps)
qed (simp_all add: fst_handle del: handle.simps)

lemma placeDevice_same_answer:
  assumes same: "schoolData t sc = schoolData s sc"
    and one: "placeDevice s sc dev rnd now = (s', Inr r)"
    and two: "placeDevice t sc dev rnd now = (t', Inr r2)"
  shows "r2 = r"
proof -
  have own: "schoolData s sc \<noteq> None \<or> \<not> inherited_name sc"
  proof (rule ccontr)
    assume "\<not> ?thesis"
    with one show False by (simp add: placeDevice_inherited)
  qed
  with same have own': "schoolData t sc \<noteq> None \<or> \<not> inherited_name sc" by simp
  from same have cur: "current_school t sc = current_school s sc"
    by (simp add: current_school_def)
  from one two show ?thesis
    unfolding placeDevice_own [OF own] placeDevice_own [OF own'] cur
    by (auto simp: Let_def split: option.splits if_splits)
qed

lemma placeDevice_new_position:
  assumes inv: "state_inv s" and place: "placeDevice s sc dev rnd now = (s', Inr r)"
    and new: "\<forall>(nm, c0) \<in> set (clusters (current_school s sc)). \<not> has_device c0 dev"
    and c: "map_of (clusters (current_school s' sc)) (res_clusterName r) = Some c"
    and r: "r = compose_response sc dev (res_clusterName r) c t"
    and has: "has_device c dev"
  shows "positionInCluster r = int (length (devices c))"
proof -
  let ?nm = "res_clusterName r"
  let ?old = "devices_of s sc ?nm"
  from c have after: "devices_of s' sc ?nm = devices c"
    by (simp add: devices_of_current [of s' sc])
  have old: "dev \<notin> set (map deviceId ?old)"
  proof (cases "map_of (clusters (current_school s sc)) ?nm")
    case None
    then show ?thesis by (simp add: devices_of_current [of s sc])
  next
    case (Some c0)
    then have "(?nm, c0) \<in> set (clusters (current_school s sc))" by (rule map_of_SomeD)
    with new have "\<not> has_device c0 dev" by auto
    with Some show ?thesis by (simp add: devices_of_current [of s sc] has_device_iff)
  qed
  from has after have "dev \<in> set (map deviceId (devices_of s' sc ?nm))"
    by (simp add: has_device_iff)
  with old placeDevice_devices_of [OF inv place, of sc ?nm] after
  have split: "devices c = ?old @ [\<lparr>deviceId = dev, registeredAt = now\<rparr>]" by auto
  from old have "findIndex (\<lambda>d. deviceId d = dev) (?old @ [\<lparr>deviceId = dev, registeredAt = now\<rparr>]) =
      int (length ?old)"
    by (intro findIndex_append_new) auto
  with split have "findIndex (\<lambda>d. deviceId d = dev) (devices c) + 1 = int (length (devices c))"
    by simp
  with arg_cong [OF r, of positionInCluster] show ?thesis by simp
qed

lemma placeDevice_follows_table:
  assumes inv: "state_inv s" and place: "placeDevice s sc dev rnd now = (s', Inr r)"
  shows "\<exists>c. map_of (clusters (current_school s' sc)) (res_clusterName r) = Some c \<and>
           follows_table dev (devices c) (hosts c) (positionInCluster r) (res_role r)
             (clusterHosts r) \<and>
           hosts c = map deviceId (take 3 (devices c)) \<and>
           distinct (map deviceId (devices c)) \<and>
           ((\<forall>(nm, c0) \<in> set (clusters (current_school s sc)). \<not> has_device c0 dev) \<longrightarrow>
              positionInCluster r = int (length (devices c)))"
proof -
  from placeDevice_answer [OF inv place] obtain c
    where mem: "(res_clusterName r, c) \<in> set (clusters (current_school s' sc))"
      and r: "r = compose_response sc dev (res_clusterName r) c (totalDevices (current_school s' sc))"
      and has: "has_device c dev"
    by blast
  have inv': "state_inv s'"
    using placeDevice_state_inv [OF inv, of sc dev rnd now] place by simp
  note sinv' = current_school_inv [OF inv', of sc]
  from school_inv_map_of [OF sinv', of "res_clusterName r" c] mem
  have c: "map_of (clusters (current_school s' sc)) (res_clusterName r) = Some c" by simp
  from school_inv_cluster [OF sinv' mem] have cinv: "cluster_inv c" by simp
  then have h: "hosts c = take 3 (map deviceId (devices c))"
    and d: "distinct (map deviceId (devices c))"
    by (simp_all add: cluster_inv_def MAX_HOSTS_PER_CLUSTER_def)
  from has have "dev \<in> set (map deviceId (devices c))" by (simp add: has_device_iff)
  from follows_table_compose [OF h this]
  have "follows_table dev (devices c) (hosts c) (positionInCluster r) (res_role r) (clusterHosts r)"
    using arg_cong [OF r, of positionInCluster] arg_cong [OF r, of res_role]
      arg_cong [OF r, of clusterHosts] by simp
  moreover from h have "hosts c = map deviceId (take 3 (devices c))" by (simp add: take_map)
  moreover have "positionInCluster r = int (length (devices c))"
    if "\<forall>(nm, c0) \<in> set (clusters (current_school s sc)). \<not> has_device c0 dev"
    by (rule placeDevice_new_position [OF inv place that c r has])
  ultimately show ?thesis using c d by blast
qed

text \<open>The flat variant.\<close>

lemma flat_compose_response_simps [simp]:
  "fr_position (flat_compose_response sc dev school) =
     findIndex (\<lambda>d. deviceId d = dev) (school_devices school) + 1"
  "fr_role (flat_compose_response sc dev school) =
     derive_role (findIndex (\<lambda>d. deviceId d = dev) (school_devices school)) dev
       (school_hosts school)"
  "fr_hosts (flat_compose_response sc dev school) = all_hosts (school_hosts school)"
  "fr_totalDevices (flat_compose_response sc dev school) = length (school_devices school)"
  by (simp_all add: flat_compose_response_def Let_def)

lemma flat_placeDevice_follows_table:
  assumes inv: "flat_state_inv s" and place: "flat_placeDevice s sc dev now = (s', Inr r)"
  shows "follows_table dev (school_devices (flat_current_school s' sc))
           (school_hosts (flat_current_school s' sc)) (fr_position r) (fr_role r) (fr_hosts r) \<and>
         school_hosts (flat_current_school s' sc) =
           map deviceId (take 3 (school_devices (flat_current_school s' sc))) \<and>
         distinct (map deviceId (school_devices (flat_current_school s' sc))) \<and>
         (\<not> flat_has_device (flat_current_school s sc) dev \<longrightarrow>
            fr_position r = int (length (school_devices (flat_current_school s' sc))))"
proof -
  have own: "flat_schoolData s sc \<noteq> None \<or> \<not> inherited_name sc"
  proof (rule ccontr)
    assume "\<not> ?thesis"
    with place show False by (simp add: flat_placeDevice_inherited)
  qed
  let ?cur = "flat_current_school s sc"
  let ?school = "if flat_has_device ?cur dev then ?cur else flat_add_device ?cur dev now"
  from place have s': "s' = s\<lparr>flat_schoolData := (flat_schoolData s)(sc \<mapsto> ?school)\<rparr>"
    and r: "r = flat_compose_response sc dev ?school"
    by (simp_all add: flat_placeDevice_own [OF own] Let_def)
  from s' have cur': "flat_current_school s' sc = ?school" by simp
  have sinv: "flat_inv ?school"
    using flat_current_school_inv [OF inv, of sc] by (simp add: flat_inv_add_device)
  then have h: "school_hosts ?school = take 3 (map deviceId (school_devices ?school))"
    and d: "distinct (map deviceId (school_devices ?school))"
    by (simp_all add: flat_inv_def)
  have has: "dev \<in> set (map deviceId (school_devices ?school))"
    by (simp add: flat_has_device_def flat_add_device_simps)
  from follows_table_compose [OF h has] r
  have "follows_table dev (school_devices ?school) (school_hosts ?school)
      (fr_position r) (fr_role r) (fr_hosts r)" by simp
  moreover from h have "school_hosts ?school = map deviceId (take 3 (school_devices ?school))"
    by (simp add: take_map)
  moreover have "fr_position r = int (length (school_devices ?school))"
    if new: "\<not> flat_has_device ?cur dev"
  proof -
    from new have "findIndex (\<lambda>d. deviceId d = dev)
        (school_devices ?cur @ [\<lparr>deviceId = dev, registeredAt = now\<rparr>]) =
        int (length (school_devices ?cur))"
      by (intro findIndex_append_new) (auto simp: flat_has_device_def)
    with new r show ?thesis by (simp add: flat_add_device_simps)
  qed
  ultimately show ?thesis unfolding cur' using d by blast
qed

lemma flat_handle_frame:
  assumes "flat_request_school q \<noteq> Some sc"
  shows "flat_schoolData (fst (flat_handle s q)) sc = flat_schoolData s sc"
proof (cases q)
  case (FlatPostGetHosts a b now)
  show ?thesis
  proof (cases "falsy a \<or> falsy b")
    case True
    with FlatPostGetHosts show ?thesis
      by (simp add: fst_flat_handle flat_post_get_hosts_cases del: flat_handle.simps)
  next
    case False
    then obtain sc2 where a: "a = Some sc2" by (cases a) (simp_all add: falsy_def)
    with assms FlatPostGetHosts have ne: "sc2 \<noteq> sc" by simp
    have "flat_schoolData (fst (flat_placeDevice s sc2 (the b) now)) sc = flat_schoolData s sc"
    proof (cases "flat_schoolData s sc2 \<noteq> None \<or> \<not> inherited_name sc2")
      case True
      with ne show ?thesis by (simp add: flat_placeDevice_own Let_def)
    next
      case False
      then show ?thesis by (simp add: flat_placeDevice_inherited)
    qed
    with False FlatPostGetHosts a show ?thesis
      by (simp add: fst_flat_handle flat_post_get_hosts_cases del: flat_handle.simps)
  qed
next
  case (FlatDeleteSchool sc2)
  with assms show ?thesis
    by (auto simp: fst_flat_handle flat_delete_school_def simp del: flat_handle.simps)
qed (simp_all add: fst_flat_handle del: flat_handle.simps)

lemma flat_placeDevice_same_answer:
  assumes same: "flat_schoolData t sc = flat_schoolData s sc"
  shows "snd (flat_placeDevice t sc dev now) = snd (flat_placeDevice s sc dev now)"
proof (cases "flat_schoolData s sc \<noteq> None \<or> \<not> inherited_name sc")
  case True
  with same have own': "flat_schoolData t sc \<noteq> None \<or> \<not> inherited_name sc" by simp
  from same have "flat_current_school t sc = flat_current_school s sc"
    by (simp add: flat_current_school_def)
  then show ?thesis
    by (simp add: flat_placeDevice_own [OF True] flat_placeDevice_own [OF own'] Let_def)
next
  case False
  with same have "flat_schoolData t sc = None" "inherited_name sc" by simp_all
  with False show ?thesis by (simp add: flat_placeDevice_inherited)
qed

lemma flat_placeDevice_answers:
  assumes "\<not> inherited_name sc \<or> flat_schoolData s sc \<noteq> None"
  shows "\<exists>r. snd (flat_placeDevice s sc dev now) = Inr r"
proof -
  from assms have "flat_schoolData s sc \<noteq> None \<or> \<not> inherited_name sc" by auto
  then show ?thesis by (simp add: flat_placeDevice_own Let_def)
qed


lemma run_frame:
  assumes "state_inv s" and "\<forall>q\<in>set qs. request_school q \<noteq> Some sc"
  shows "schoolData (run s qs) sc = schoolData s sc"
  using assms
proof (induction qs arbitrary: s)
  case Nil
  then show ?case by simp
next
  case (Cons q qs)
  from Cons.prems have q: "request_school q \<noteq> Some sc"
    and qs: "\<forall>q\<in>set qs. request_school q \<noteq> Some sc" by simp_all
  from Cons.IH [OF handle_state_inv [OF Cons.prems(1), of q] qs]
    handle_frame [OF Cons.prems(1) q]
  show ?case by (simp add: run_Cons del: handle.simps)
qed

lemma flat_run_frame:
  assumes "\<forall>q\<in>set qs. flat_request_school q \<noteq> Some sc"
  shows "flat_schoolData (flat_run s qs) sc = flat_schoolData s sc"
  using assms
proof (induction qs arbitrary: s)
  case Nil
  then show ?case by (simp add: flat_run_def)
next
  case (Cons q qs)
  from Cons.prems have q: "flat_request_school q \<noteq> Some sc"
    and qs: "\<forall>q\<in>set qs. flat_request_school q \<noteq> Some sc" by simp_all
  have "flat_run s (q # qs) = flat_run (fst (flat_handle s q)) qs" by (simp add: flat_run_def)
  with Cons.IH [OF qs, of "fst (flat_handle s q)"] flat_handle_frame [OF q, of s]
  show ?case by simp
qed

section \<open>The claims\<close>

text \<open>
  Claim C6, as amended. Starting from a state with no school \<open>ABC\<close> (clustered variant:
  with an unpolluted prototype), registering \<open>d1\<close>, \<open>d2\<close> and \<open>d4\<close> in this order answers
  role \<open>host1\<close> at position 1 with \<open>hostDeviceId = d1\<close>, then role \<open>host2\<close> with
  \<open>hostDeviceId = d1\<close>, then role \<open>host3\<close> at position 3 with \<open>host3DeviceId = d4\<close>:
  the third distinct device is the third host whatever its name, and all three host slots
  are filled. Both variants.
\<close>

theorem scenario_third_device_is_host3:
  assumes "schoolData s ''ABC'' = None" and "\<not> polluted s"
    and "flat_schoolData fs ''ABC'' = None"
  shows "map placement_of (replies s (scenario rnd t1 t2 t3)) =
     [Some \<lparr>res_schoolCode = ''ABC'', res_clusterName = ''ABC_1'', res_clusterNumber = 1,
            res_deviceId = ''d1'', positionInCluster = 1, totalDevicesInCluster = 1,
            totalDevicesInSchool = 1, maxDevicesPerCluster = 10,
            res_frequency = getRandomFrequency rnd,
            res_role = \<lparr>hostDeviceId = Some ''d1'', host2DeviceId = None,
                         host3DeviceId = None, role = host1\<rparr>,
            res_message = ''You are the primary host for cluster ABC_1'',
            clusterHosts = \<lparr>slot_host1 = Some ''d1'', slot_host2 = None, slot_host3 = None\<rparr>,
            clusterDevices = [''d1'']\<rparr>,
      Some \<lparr>res_schoolCode = ''ABC'', res_clusterName = ''ABC_1'', res_clusterNumber = 1,
            res_deviceId = ''d2'', positionInCluster = 2, totalDevicesInCluster = 2,
            totalDevicesInSchool = 2, maxDevicesPerCluster = 10,
            res_frequency = getRandomFrequency rnd,
            res_role = \<lparr>hostDeviceId = Some ''d1'', host2DeviceId = Some ''d2'',
                         host3DeviceId = None, role = host2\<rparr>,
            res_message = ''You are the secondary host for cluster ABC_1'',
            clusterHosts = \<lparr>slot_host1 = Some ''d1'', slot_host2 = Some ''d2'',
                             slot_host3 = None\<rparr>,
            clusterDevices = [''d1'', ''d2'']\<rparr>,
      Some \<lparr>res_schoolCode = ''ABC'', res_clusterName = ''ABC_1'', res_clusterNumber = 1,
            res_deviceId = ''d4'', positionInCluster = 3, totalDevicesInCluster = 3,
            totalDevicesInSchool = 3, maxDevicesPerCluster = 10,
            res_frequency = getRandomFrequency rnd,
            res_role = \<lparr>hostDeviceId = Some ''d1'', host2DeviceId = Some ''d2'',
                         host3DeviceId = Some ''d4'', role = host3\<rparr>,
            res_message = ''You are the tertiary host for cluster ABC_1'',
            clusterHosts = \<lparr>slot_host1 = Some ''d1'', slot_host2 = Some ''d2'',
                             slot_host3 = Some ''d4''\<rparr>,
            clusterDevices = [''d1'', ''d2'', ''d4'']\<rparr>] \<and>
   map flat_placement_of (flat_replies fs (flat_scenario t1 t2 t3)) =
     [Some \<lparr>fr_schoolCode = ''ABC'', fr_deviceId = ''d1'', fr_position = 1,
            fr_totalDevices = 1,
            fr_role = \<lparr>hostDeviceId = Some ''d1'', host2DeviceId = None,
                        host3DeviceId = None, role = host1\<rparr>,
            fr_message = ''You are the primary host'',
            fr_hosts = \<lparr>slot_host1 = Some ''d1'', slot_host2 = None, slot_host3 = None\<rparr>\<rparr>,
      Some \<lparr>fr_schoolCode = ''ABC'', fr_deviceId = ''d2'', fr_position = 2,
            fr_totalDevices = 2,
            fr_role = \<lparr>hostDeviceId = Some ''d1'', host2DeviceId = Some ''d2'',
                        host3DeviceId = None, role = host2\<rparr>,
            fr_message = ''You are the secondary host'',
            fr_hosts = \<lparr>slot_host1 = Some ''d1'', slot_host2 = Some ''d2'',
                         slot_host3 = None\<rparr>\<rparr>,
      Some \<lparr>fr_schoolCode = ''ABC'', fr_deviceId = ''d4'', fr_position = 3,
            fr_totalDevices = 3,
            fr_role = \<lparr>hostDeviceId = Some ''d1'', host2DeviceId = Some ''d2'',
                        host3DeviceId = Some ''d4'', role = host3\<rparr>,
            fr_message = ''You are the tertiary host'',
            fr_hosts = \<lparr>slot_host1 = Some ''d1'', slot_host2 = Some ''d2'',
                         slot_host3 = Some ''d4''\<rparr>\<rparr>]"
  using assms by (simp add: scenario_def flat_scenario_def eval_defs)

theorem scenario_third_device_is_host3_witness:
  "schoolData empty_state ''ABC'' = None \<and> \<not> polluted empty_state \<and>
   flat_schoolData flat_empty_state ''ABC'' = None \<and>
   map (map_option (\<lambda>r. (role (res_role r), positionInCluster r, clusterHosts r)))
     (map placement_of (replies empty_state (scenario 7 1 2 3))) =
     [Some (host1, 1, \<lparr>slot_host1 = Some ''d1'', slot_host2 = None, slot_host3 = None\<rparr>),
      Some (host2, 2, \<lparr>slot_host1 = Some ''d1'', slot_host2 = Some ''d2'', slot_host3 = None\<rparr>),
      Some (host3, 3, \<lparr>slot_host1 = Some ''d1'', slot_host2 = Some ''d2'',
                       slot_host3 = Some ''d4''\<rparr>)] \<and>
   map (map_option (\<lambda>r. (role (fr_role r), fr_position r, fr_hosts r)))
     (map flat_placement_of (flat_replies flat_empty_state (flat_scenario 1 2 3))) =
     [Some (host1, 1, \<lparr>slot_host1 = Some ''d1'', slot_host2 = None, slot_host3 = None\<rparr>),
      Some (host2, 2, \<lparr>slot_host1 = Some ''d1'', slot_host2 = Some ''d2'', slot_host3 = None\<rparr>),
      Some (host3, 3, \<lparr>slot_host1 = Some ''d1'', slot_host2 = Some ''d2'',
                       slot_host3 = Some ''d4''\<rparr>)]"
  using scenario_third_device_is_host3 [of empty_state flat_empty_state 7 1 2 3]
  by (simp add: empty_state_def flat_empty_state_def)

text \<open>
  Claim C6 as stated fails: on a fresh server the third request of the scenario does not
  answer role \<open>client\<close>, and its third host slot is not null, in either variant.
\<close>

theorem scenario_client_counterexample:
  "map_option (\<lambda>r. role (res_role r))
     (placement_of (replies empty_state (scenario 7 1 2 3) ! 2)) \<noteq> Some client \<and>
   map_option (\<lambda>r. slot_host3 (clusterHosts r))
     (placement_of (replies empty_state (scenario 7 1 2 3) ! 2)) \<noteq> Some None \<and>
   map_option (\<lambda>r. role (fr_role r))
     (flat_placement_of (flat_replies flat_empty_state (flat_scenario 1 2 3) ! 2)) \<noteq> Some client \<and>
   map_option (\<lambda>r. slot_host3 (fr_hosts r))
     (flat_placement_of (flat_replies flat_empty_state (flat_scenario 1 2 3) ! 2)) \<noteq> Some None"
  by (simp add: scenario_def flat_scenario_def eval_defs)

text \<open>
  Claim C7 fails on the code: a non-empty \<open>schoolCode\<close> that names a property inherited
  from \<open>Object.prototype\<close> is never auto-created; the handler throws and answers 500.
  Here \<open>schoolCode = "constructor"\<close> on a fresh server, both variants.
\<close>

theorem registration_of_inherited_name_fails:
  "post_get_hosts empty_state (Some ''constructor'') (Some ''d1'') rnd now =
     (empty_state, Inl InternalError) \<and>
   flat_post_get_hosts flat_empty_state (Some ''constructor'') (Some ''d1'') now =
     (flat_empty_state, Inl InternalError)"
  by (simp add: eval_defs)

text \<open>
  Claim C8 fails on the code: resetting a \<open>schoolCode\<close> that is absent from the state but
  names a property inherited from \<open>Object.prototype\<close> answers 200, not 404. Here
  \<open>DELETE /api/school/constructor\<close> on a fresh server, both variants.
\<close>

theorem reset_of_inherited_name_succeeds:
  "schoolData empty_state ''constructor'' = None \<and>
   delete_school empty_state ''constructor'' =
     (empty_state, Inr ''School constructor data reset successfully'') \<and>
   flat_schoolData flat_empty_state ''constructor'' = None \<and>
   flat_delete_school flat_empty_state ''constructor'' =
     (flat_empty_state, Inr ''School constructor data reset successfully'')"
  by (simp add: eval_defs)

text \<open>
  Claim C4. In every reachable state the host list of every cluster (clustered variant)
  and of every school (flat variant) is the list of the \<open>deviceId\<close>s of the first
  \<open>min 3 (length devices)\<close> devices, in arrival order; so it never has more than three
  entries.
\<close>

theorem host_prefix_invariant:
  "(reachable s \<longrightarrow> schoolData s sc = Some school \<longrightarrow> (nm, c) \<in> set (clusters school) \<longrightarrow>
      hosts c = map deviceId (take (min 3 (length (devices c))) (devices c)) \<and>
      length (hosts c) \<le> 3) \<and>
   (flat_reachable fs \<longrightarrow> flat_schoolData fs sc = Some fschool \<longrightarrow>
      school_hosts fschool =
        map deviceId (take (min 3 (length (school_devices fschool))) (school_devices fschool)) \<and>
      length (school_hosts fschool) \<le> 3)"
proof (intro conjI impI)
  assume "reachable s" "schoolData s sc = Some school" "(nm, c) \<in> set (clusters school)"
  then have "cluster_inv c"
    using reachable_state_inv [of s] school_inv_cluster [of sc school nm c]
    by (simp add: state_inv_def)
  then have h: "hosts c = take 3 (map deviceId (devices c))"
    by (simp add: cluster_inv_def MAX_HOSTS_PER_CLUSTER_def)
  then show "hosts c = map deviceId (take (min 3 (length (devices c))) (devices c))"
    by (simp add: take_map min_def)
  from h show "length (hosts c) \<le> 3" by simp
next
  assume "flat_reachable fs" "flat_schoolData fs sc = Some fschool"
  then have h: "school_hosts fschool = take 3 (map deviceId (school_devices fschool))"
    using flat_reachable_state_inv [of fs] by (simp add: flat_state_inv_def flat_inv_def)
  then show "school_hosts fschool =
      map deviceId (take (min 3 (length (school_devices fschool))) (school_devices fschool))"
    by (simp add: take_map min_def)
  from h show "length (school_hosts fschool) \<le> 3" by simp
qed

theorem host_prefix_invariant_witness:
  "reachable (run empty_state four_devices) \<and>
   schoolData (run empty_state four_devices) ''ABC'' = Some example_school \<and>
   (''ABC_1'', example_cluster) \<in> set (clusters example_school) \<and>
   hosts example_cluster =
     map deviceId (take (min 3 (length (devices example_cluster))) (devices example_cluster)) \<and>
   length (devices example_cluster) = 4 \<and> length (hosts example_cluster) \<le> 3 \<and>
   flat_reachable (flat_run flat_empty_state flat_four_devices) \<and>
   flat_schoolData (flat_run flat_empty_state flat_four_devices) ''ABC'' = Some example_flat_school \<and>
   school_hosts example_flat_school =
     map deviceId (take (min 3 (length (school_devices example_flat_school)))
       (school_devices example_flat_school)) \<and>
   length (school_hosts example_flat_school) \<le> 3"
proof -
  have r: "reachable (run empty_state four_devices)"
    by (rule reachable_run [OF reachable_empty])
  have e: "schoolData (run empty_state four_devices) ''ABC'' = Some example_school"
    by (simp add: run_def four_devices_def scenario_def eval_defs example_school_def
        example_cluster_def getRandomFrequency_def FREQUENCY_CHANNELS_def)
  have m: "(''ABC_1'', example_cluster) \<in> set (clusters example_school)"
    by (simp add: example_school_def)
  have fr: "flat_reachable (flat_run flat_empty_state flat_four_devices)"
    by (rule flat_reachable_run [OF flat_reachable_empty])
  have fe: "flat_schoolData (flat_run flat_empty_state flat_four_devices) ''ABC'' =
      Some example_flat_school"
    by (simp add: flat_run_def flat_four_devices_def flat_scenario_def eval_defs
        example_flat_school_def)
  have n: "length (devices example_cluster) = 4"
    by (simp add: example_cluster_def)
  from host_prefix_invariant [of "run empty_state four_devices" "''ABC''" example_school
      "''ABC_1''" example_cluster "flat_run flat_empty_state flat_four_devices"
      example_flat_school] r e m fr fe n
  show ?thesis by simp
qed

text \<open>
  Claim C5 (clustered variant). In every reachable state \<open>totalDevices\<close> of every school
  is the sum of the device-list lengths of its clusters, and every request keeps it so.
  A placement that answers adds 1 for a new device and nothing for a known one, and reports
  the count in \<open>totalDevicesInSchool\<close>; a cluster reset subtracts the device count of the
  removed cluster.
\<close>

theorem count_consistency:
  assumes "reachable s" and "schoolData s sc = Some school"
  shows "totalDevices school = int (device_count school) \<and>
    (\<forall>r sc' school'. schoolData (fst (handle s r)) sc' = Some school' \<longrightarrow>
       totalDevices school' = int (device_count school')) \<and>
    (\<forall>dev rnd now s' r. placeDevice s sc dev rnd now = (s', Inr r) \<longrightarrow>
       map_option totalDevices (schoolData s' sc) =
         Some (totalDevices school +
           (if list_ex (\<lambda>(nm, c). has_device c dev) (clusters school) then 0 else 1)) \<and>
       totalDevicesInSchool r = int (device_count (current_school s' sc))) \<and>
    (\<forall>n c s' out. map_of (clusters school) (sc @ ''_'' @ n) = Some c \<longrightarrow>
       delete_cluster s sc n = (s', out) \<longrightarrow>
       map_option totalDevices (schoolData s' sc) =
         Some (totalDevices school - int (length (devices c))) \<and>
       map_option device_count (schoolData s' sc) =
         Some (device_count school - length (devices c)))"
proof (intro conjI allI impI)
  from assms show "totalDevices school = int (device_count school)"
    by (intro school_inv_count reachable_school_inv)
next
  fix r sc' school'
  assume "schoolData (fst (handle s r)) sc' = Some school'"
  with reachable_handle [OF assms(1), of r] show "totalDevices school' = int (device_count school')"
    by (intro school_inv_count reachable_school_inv)
next
  fix dev rnd now s' r
  assume place: "placeDevice s sc dev rnd now = (s', Inr r)"
  from reachable_state_inv [OF assms(1)]
  show "map_option totalDevices (schoolData s' sc) =
      Some (totalDevices school +
        (if list_ex (\<lambda>(nm, c). has_device c dev) (clusters school) then 0 else 1))"
  proof (cases rule: placeDevice_cases [where sc = sc and dev = dev and rnd = rnd and now = now])
    case (existing nm c ys zs)
    with place assms(2) show ?thesis by (auto simp: list_ex_iff)
  next
    case (space nm c ys zs)
    with place assms(2) show ?thesis by (auto simp: list_ex_iff)
  next
    case (fresh n c)
    with place assms(2) show ?thesis by (auto simp: list_ex_iff)
  qed (use place assms(2) in auto)
  from reachable_state_inv [OF assms(1)]
  have "totalDevicesInSchool r = totalDevices (current_school s' sc)"
  proof (cases rule: placeDevice_cases [where sc = sc and dev = dev and rnd = rnd and now = now])
    case (existing nm c ys zs)
    with place assms(2) show ?thesis by (auto simp: compose_response_def Let_def)
  next
    case (space nm c ys zs)
    with place assms(2) show ?thesis by (auto simp: compose_response_def Let_def)
  next
    case (fresh n c)
    with place assms(2) show ?thesis by (auto simp: compose_response_def Let_def)
  qed (use place assms(2) in auto)
  moreover have "state_inv s'"
    using placeDevice_state_inv [OF reachable_state_inv [OF assms(1)], of sc dev rnd now] place
    by simp
  ultimately show "totalDevicesInSchool r = int (device_count (current_school s' sc))"
    using school_inv_count [OF current_school_inv, of s' sc] by simp
next
  fix n c s' out
  assume c: "map_of (clusters school) (sc @ ''_'' @ n) = Some c"
    and del: "delete_cluster s sc n = (s', out)"
  from assms(2) c del have s': "schoolData s' sc =
      Some (school\<lparr>totalDevices := totalDevices school - int (length (devices c)),
                   clusters := AList.delete (sc @ ''_'' @ n) (clusters school)\<rparr>)"
    by (auto simp: delete_cluster_own)
  then show "map_option totalDevices (schoolData s' sc) =
      Some (totalDevices school - int (length (devices c)))" by simp
  from reachable_school_inv [OF assms] c
  show "map_option device_count (schoolData s' sc) =
         Some (device_count school - length (devices c))"
    by (simp add: s' device_count_def sum_list_delete school_inv_distinct)
qed

theorem count_consistency_witness:
  "reachable (run empty_state four_devices) \<and>
   schoolData (run empty_state four_devices) ''ABC'' = Some example_school \<and>
   totalDevices example_school = int (device_count example_school) \<and>
   device_count example_school = 4"
proof -
  have r: "reachable (run empty_state four_devices)"
    by (rule reachable_run [OF reachable_empty])
  have e: "schoolData (run empty_state four_devices) ''ABC'' = Some example_school"
    by (simp add: run_def four_devices_def scenario_def eval_defs example_school_def
        example_cluster_def getRandomFrequency_def FREQUENCY_CHANNELS_def)
  have n: "device_count example_school = 4"
    by (simp add: device_count_def example_school_def example_cluster_def)
  from count_consistency [OF r e] r e n show ?thesis by simp
qed

text \<open>
  Claim C9 (clustered variant). While a school stays in the state its \<open>lastClusterNumber\<close>
  never decreases: a request either leaves it unchanged and creates no cluster, or adds 1
  and appends exactly one new cluster, named and numbered by the new value. A cluster
  reset leaves it unchanged. After a cluster is reset, no cluster of that school ever has
  its name or its number again, whatever requests follow, as long as the school itself is
  not reset; after a school reset the first placement creates cluster 1 again.
\<close>

theorem cluster_numbers_never_reused:
  assumes "reachable s" and "schoolData s sc = Some school"
  shows
   "(\<forall>r school'. schoolData (fst (handle s r)) sc = Some school' \<longrightarrow>
       lastClusterNumber school \<le> lastClusterNumber school' \<and>
       (lastClusterNumber school' = lastClusterNumber school \<and>
          set (map fst (clusters school')) \<subseteq> set (map fst (clusters school)) \<or>
        lastClusterNumber school' = lastClusterNumber school + 1 \<and>
          cluster_name sc (lastClusterNumber school + 1) \<notin> set (map fst (clusters school)) \<and>
          (\<exists>c. clusters school' =
                 clusters school @ [(cluster_name sc (lastClusterNumber school + 1), c)] \<and>
               clusterNumber c = lastClusterNumber school + 1))) \<and>
    (\<forall>n. map_option lastClusterNumber (schoolData (fst (delete_cluster s sc n)) sc) =
       Some (lastClusterNumber school)) \<and>
    (\<forall>n c rs school'. map_of (clusters school) (sc @ ''_'' @ n) = Some c \<longrightarrow>
       DeleteSchool sc \<notin> set rs \<longrightarrow>
       schoolData (run (fst (delete_cluster s sc n)) rs) sc = Some school' \<longrightarrow>
       lastClusterNumber school \<le> lastClusterNumber school' \<and>
       (\<forall>(nm', c') \<in> set (clusters school').
          nm' \<noteq> sc @ ''_'' @ n \<and> clusterNumber c' \<noteq> clusterNumber c)) \<and>
    (\<forall>dev rnd now s' r. placeDevice (fst (delete_school s sc)) sc dev rnd now = (s', Inr r) \<longrightarrow>
       res_clusterNumber r = 1 \<and> res_clusterName r = sc @ ''_1'')"
proof (intro conjI allI impI)
  note inv = reachable_state_inv [OF assms(1)]
  note sinv = reachable_school_inv [OF assms]
  {
    fix r school'
    assume after: "schoolData (fst (handle s r)) sc = Some school'"
    have "r \<noteq> DeleteSchool sc"
    proof
      assume "r = DeleteSchool sc"
      with after assms(2) show False
        by (simp add: fst_handle delete_school_def del: handle.simps)
    qed
    from handle_school_change [OF inv assms(2) this] after
    have change: "school_change sc school school'" by simp
    then show "lastClusterNumber school \<le> lastClusterNumber school'"
      by (auto simp: school_change_def)
    from change consider
        (same) "lastClusterNumber school' = lastClusterNumber school"
          "\<forall>(nm, c') \<in> set (clusters school').
             \<exists>c. (nm, c) \<in> set (clusters school) \<and> cluster_kept c c'"
      | (created) c where "lastClusterNumber school' = lastClusterNumber school + 1"
          "clusters school' =
             clusters school @ [(cluster_name sc (lastClusterNumber school + 1), c)]"
          "clusterNumber c = lastClusterNumber school + 1"
      unfolding school_change_def by blast
    then show "lastClusterNumber school' = lastClusterNumber school \<and>
          set (map fst (clusters school')) \<subseteq> set (map fst (clusters school)) \<or>
        lastClusterNumber school' = lastClusterNumber school + 1 \<and>
          cluster_name sc (lastClusterNumber school + 1) \<notin> set (map fst (clusters school)) \<and>
          (\<exists>c. clusters school' =
                 clusters school @ [(cluster_name sc (lastClusterNumber school + 1), c)] \<and>
               clusterNumber c = lastClusterNumber school + 1)"
    proof cases
      case same
      from same(2) have "set (map fst (clusters school')) \<subseteq> set (map fst (clusters school))"
        by force
      with same(1) show ?thesis by simp
    next
      case (created c)
      with cluster_name_fresh [OF sinv] show ?thesis by simp
    qed
  }
  {
    fix n
    show "map_option lastClusterNumber (schoolData (fst (delete_cluster s sc n)) sc) =
       Some (lastClusterNumber school)"
      using assms(2) by (cases rule: delete_cluster_cases [of s sc n]) auto
  }
  {
    fix n c rs school'
    assume c: "map_of (clusters school) (sc @ ''_'' @ n) = Some c"
      and rs: "DeleteSchool sc \<notin> set rs"
      and after: "schoolData (run (fst (delete_cluster s sc n)) rs) sc = Some school'"
    let ?nm = "sc @ ''_'' @ n"
    let ?school1 = "school\<lparr>totalDevices := totalDevices school - int (length (devices c)),
                          clusters := AList.delete ?nm (clusters school)\<rparr>"
    let ?s1 = "fst (delete_cluster s sc n)"
    from delete_cluster_own [OF assms(2) c] have s1: "schoolData ?s1 sc = Some ?school1"
      by simp
    have inv1: "state_inv ?s1" by (rule delete_cluster_state_inv [OF inv])
    from run_school_step [OF inv1 s1 rs] after
    have step: "school_step ?school1 school'" by simp
    then show "lastClusterNumber school \<le> lastClusterNumber school'"
      by (simp add: school_step_def)
    from run_state_inv [OF inv1, of rs] after have sinv': "school_inv sc school'"
      by (simp add: state_inv_def)
    from c have mem: "(?nm, c) \<in> set (clusters school)" by (rule map_of_SomeD)
    from school_inv_cluster [OF sinv mem]
    have nm: "?nm = cluster_name sc (clusterNumber c)"
      and le: "clusterNumber c \<le> lastClusterNumber school" by simp_all
    show "\<forall>(nm', c') \<in> set (clusters school').
          nm' \<noteq> sc @ ''_'' @ n \<and> clusterNumber c' \<noteq> clusterNumber c"
    proof (intro ballI, clarify)
      fix nm' c'
      assume mem': "(nm', c') \<in> set (clusters school')"
      from school_inv_cluster [OF sinv' mem']
      have nm': "nm' = cluster_name sc (clusterNumber c')" by simp
      have "clusterNumber c' \<noteq> clusterNumber c"
      proof -
        from step mem' consider c0 where "(nm', c0) \<in> set (AList.delete ?nm (clusters school))"
            "cluster_kept c0 c'"
          | "lastClusterNumber school < clusterNumber c'"
          by (auto simp: school_step_def)
        then show ?thesis
        proof cases
          case 1
          from 1(1) have "nm' \<noteq> ?nm"
            using AList.delete_notin_dom [of ?nm "clusters school"] by force
          moreover from 1(1) have "(nm', c0) \<in> set (clusters school)"
            using set_delete_subset by fast
          ultimately have "clusterNumber c0 \<noteq> clusterNumber c"
            using school_inv_number_unique [OF sinv mem, of nm' c0] by auto
          with 1(2) show ?thesis by (simp add: cluster_kept_def)
        next
          case 2
          with le show ?thesis by simp
        qed
      qed
      with nm nm' show "nm' \<noteq> sc @ ''_'' @ n \<and> clusterNumber c' \<noteq> clusterNumber c"
        by (auto dest: cluster_name_inj)
    qed
  }
  {
    fix dev rnd now s' r
    assume "placeDevice (fst (delete_school s sc)) sc dev rnd now = (s', Inr r)"
    moreover from assms(2) have "schoolData (fst (delete_school s sc)) sc = None"
      by (simp add: delete_school_def)
    ultimately have "res_clusterNumber r = 1 \<and> res_clusterName r = sc @ ''_1''"
      by (rule placeDevice_first_cluster [rotated])
    then show "res_clusterNumber r = 1" and "res_clusterName r = sc @ ''_1''" by simp_all
  }
qed

theorem cluster_numbers_never_reused_witness:
  "reachable (run empty_state four_devices) \<and>
   schoolData (run empty_state four_devices) ''ABC'' = Some example_school \<and>
   map_of (clusters example_school) (''ABC'' @ ''_'' @ ''1'') = Some example_cluster \<and>
   DeleteSchool ''ABC'' \<notin> set [PostGetHosts (Some ''ABC'') (Some ''d9'') 3 9] \<and>
   schoolData (run (fst (delete_cluster (run empty_state four_devices) ''ABC'' ''1''))
     [PostGetHosts (Some ''ABC'') (Some ''d9'') 3 9]) ''ABC'' = Some example_school_after \<and>
   lastClusterNumber example_school \<le> lastClusterNumber example_school_after \<and>
   map (\<lambda>(nm, c). (nm, clusterNumber c)) (clusters example_school_after) = [(''ABC_2'', 2)]"
proof -
  have r: "reachable (run empty_state four_devices)"
    by (rule reachable_run [OF reachable_empty])
  have e: "schoolData (run empty_state four_devices) ''ABC'' = Some example_school"
    by (simp add: run_def four_devices_def scenario_def eval_defs example_school_def
        example_cluster_def getRandomFrequency_def FREQUENCY_CHANNELS_def)
  have c: "map_of (clusters example_school) (''ABC'' @ ''_'' @ ''1'') = Some example_cluster"
    by (simp add: example_school_def)
  have rs: "DeleteSchool ''ABC'' \<notin> set [PostGetHosts (Some ''ABC'') (Some ''d9'') 3 9]"
    by simp
  have a: "schoolData (run (fst (delete_cluster (run empty_state four_devices) ''ABC'' ''1''))
     [PostGetHosts (Some ''ABC'') (Some ''d9'') 3 9]) ''ABC'' = Some example_school_after"
    by (simp add: run_def four_devices_def scenario_def eval_defs example_school_after_def
        getRandomFrequency_def FREQUENCY_CHANNELS_def)
  from cluster_numbers_never_reused [OF r e] c rs a
  have "lastClusterNumber example_school \<le> lastClusterNumber example_school_after" by blast
  moreover have "map (\<lambda>(nm, c). (nm, clusterNumber c)) (clusters example_school_after) =
      [(''ABC_2'', 2)]"
    by (simp add: example_school_after_def)
  ultimately show ?thesis using r e c rs a by simp
qed

text \<open>
  Claim C10 (clustered variant). A placement that answers reports the frequency stored in
  the cluster it names, one of the 25 channels; when that cluster did not exist before the
  request (also the first cluster of a school that was not there) it is the value drawn in
  this request, and when it existed it is the value the cluster had. A placement answers
  whenever \<open>Object.prototype\<close> is unpolluted and the school code is an own key or no
  inherited name. For every cluster of a reachable state: its frequency is one of the 25
  channels; in every state reached without resetting the school a cluster of the same name
  has the same frequency; the cluster query for its number answers and reports it; the
  school query reports it whenever it answers, and it answers while \<open>Object.prototype\<close> is
  unpolluted.
\<close>

theorem frequency_write_once:
  "(reachable s0 \<longrightarrow>
      (placeDevice s0 sc0 dev rnd now = (s', Inr r) \<longrightarrow>
         res_frequency r \<in> set FREQUENCY_CHANNELS \<and>
         map_option frequency (map_of (clusters (current_school s' sc0)) (res_clusterName r)) =
           Some (res_frequency r) \<and>
         (res_clusterName r \<notin> set (map fst (clusters (current_school s0 sc0))) \<longrightarrow>
            res_frequency r = getRandomFrequency rnd) \<and>
         (\<forall>c0. (res_clusterName r, c0) \<in> set (clusters (current_school s0 sc0)) \<longrightarrow>
            res_frequency r = frequency c0)) \<and>
      (\<not> polluted s0 \<longrightarrow> \<not> inherited_name sc0 \<or> schoolData s0 sc0 \<noteq> None \<longrightarrow>
         (\<exists>r. snd (placeDevice s0 sc0 dev rnd now) = Inr r))) \<and>
   (reachable s \<longrightarrow> schoolData s sc = Some school \<longrightarrow> (nm, c) \<in> set (clusters school) \<longrightarrow>
      frequency c \<in> set FREQUENCY_CHANNELS \<and> length FREQUENCY_CHANNELS = 25 \<and>
      (\<forall>rs school' c'. DeleteSchool sc \<notin> set rs \<longrightarrow>
         schoolData (run s rs) sc = Some school' \<longrightarrow>
         (nm, c') \<in> set (clusters school') \<longrightarrow> frequency c' = frequency c) \<and>
      (\<exists>d. get_cluster s sc (show_nat (clusterNumber c)) = Inr d \<and>
           cd_clusterName d = nm \<and> cd_frequency d = frequency c) \<and>
      (\<forall>n d. get_cluster s sc n = Inr d \<longrightarrow> cd_clusterName d = nm \<longrightarrow>
         cd_frequency d = frequency c) \<and>
      (\<not> polluted s \<longrightarrow>
         (\<exists>sm. get_school s sc = Inr sm \<and>
            map_option sum_frequency (map_of (ss_clusters sm) nm) = Some (frequency c))) \<and>
      (\<forall>sm. get_school s sc = Inr sm \<longrightarrow>
         map_option sum_frequency (map_of (ss_clusters sm) nm) = Some (frequency c)))"
proof (intro conjI impI)
  assume r0: "reachable s0"
  note inv0 = reachable_state_inv [OF r0]
  {
    assume "placeDevice s0 sc0 dev rnd now = (s', Inr r)"
    from placeDevice_frequency [OF inv0 this]
    show "res_frequency r \<in> set FREQUENCY_CHANNELS"
      and "map_option frequency (map_of (clusters (current_school s' sc0)) (res_clusterName r)) =
           Some (res_frequency r)"
      and "res_clusterName r \<notin> set (map fst (clusters (current_school s0 sc0))) \<Longrightarrow>
            res_frequency r = getRandomFrequency rnd"
      and "\<forall>c0. (res_clusterName r, c0) \<in> set (clusters (current_school s0 sc0)) \<longrightarrow>
            res_frequency r = frequency c0"
      by blast+
  }
  {
    assume "\<not> polluted s0" and "\<not> inherited_name sc0 \<or> schoolData s0 sc0 \<noteq> None"
    then show "\<exists>r. snd (placeDevice s0 sc0 dev rnd now) = Inr r"
      by (rule placeDevice_answers [OF inv0])
  }
next
  assume r: "reachable s" and school: "schoolData s sc = Some school"
    and mem: "(nm, c) \<in> set (clusters school)"
  from cluster_frequency_facts [OF r school mem]
  show "frequency c \<in> set FREQUENCY_CHANNELS" and "length FREQUENCY_CHANNELS = 25"
    and "\<forall>rs school' c'. DeleteSchool sc \<notin> set rs \<longrightarrow>
         schoolData (run s rs) sc = Some school' \<longrightarrow>
         (nm, c') \<in> set (clusters school') \<longrightarrow> frequency c' = frequency c"
    and "\<forall>n d. get_cluster s sc n = Inr d \<longrightarrow> cd_clusterName d = nm \<longrightarrow>
         cd_frequency d = frequency c"
    and all_sm: "\<forall>sm. get_school s sc = Inr sm \<longrightarrow>
         map_option sum_frequency (map_of (ss_clusters sm) nm) = Some (frequency c)"
    by blast+
  note sinv = reachable_school_inv [OF r school]
  from school_inv_cluster [OF sinv mem]
  have nm: "nm = sc @ ''_'' @ show_nat (clusterNumber c)" by (simp add: cluster_name_def)
  from school_inv_map_of [OF sinv, of nm c] mem nm
  have "map_of (clusters school) (sc @ ''_'' @ show_nat (clusterNumber c)) = Some c" by simp
  from get_cluster_own [OF school this] nm
  show "\<exists>d. get_cluster s sc (show_nat (clusterNumber c)) = Inr d \<and>
           cd_clusterName d = nm \<and> cd_frequency d = frequency c"
    by simp
  show "\<exists>sm. get_school s sc = Inr sm \<and>
            map_option sum_frequency (map_of (ss_clusters sm) nm) = Some (frequency c)"
    if "\<not> polluted s"
    using get_school_own [OF school that] all_sm by simp
qed

theorem frequency_write_once_witness:
  "reachable empty_state \<and>
   placeDevice empty_state ''ABC'' ''d1'' 7 1 =
     (fst (placeDevice empty_state ''ABC'' ''d1'' 7 1),
      Inr (projr (snd (placeDevice empty_state ''ABC'' ''d1'' 7 1)))) \<and>
   res_clusterName (projr (snd (placeDevice empty_state ''ABC'' ''d1'' 7 1))) \<notin>
     set (map fst (clusters (current_school empty_state ''ABC''))) \<and>
   res_frequency (projr (snd (placeDevice empty_state ''ABC'' ''d1'' 7 1))) =
     getRandomFrequency 7 \<and>
   reachable (run empty_state four_devices) \<and>
   schoolData (run empty_state four_devices) ''ABC'' = Some example_school \<and>
   (''ABC_1'', example_cluster) \<in> set (clusters example_school) \<and>
   show_nat (clusterNumber example_cluster) = ''1'' \<and>
   frequency example_cluster = getRandomFrequency 7 \<and>
   map_sum id cd_frequency (get_cluster (run empty_state four_devices) ''ABC'' ''1'') =
     Inr (frequency example_cluster) \<and>
   \<not> polluted (run empty_state four_devices) \<and>
   map_option sum_frequency
     (map_of (ss_clusters (projr (get_school (run empty_state four_devices) ''ABC''))) ''ABC_1'') =
     Some (frequency example_cluster)"
proof -
  let ?p = "placeDevice empty_state ''ABC'' ''d1'' 7 1"
  let ?s = "run empty_state four_devices"
  have r0: "reachable empty_state" by (rule reachable_empty)
  have "\<not> isl (snd ?p)" by (simp add: eval_defs)
  then have p: "?p = (fst ?p, Inr (projr (snd ?p)))" by (simp add: prod_eq_iff)
  have fresh: "res_clusterName (projr (snd ?p)) \<notin>
      set (map fst (clusters (current_school empty_state ''ABC'')))"
    by (simp add: current_school_def new_school_def empty_state_def)
  have r: "reachable ?s" by (rule reachable_run [OF reachable_empty])
  have e: "schoolData ?s ''ABC'' = Some example_school"
    by (simp add: four_devices_state)
  have m: "(''ABC_1'', example_cluster) \<in> set (clusters example_school)"
    by (simp add: example_school_def)
  have n: "show_nat (clusterNumber example_cluster) = ''1''"
    by (simp add: example_cluster_def show_nat_digit digit_char_def)
  have f: "frequency example_cluster = getRandomFrequency 7"
    by (simp add: example_cluster_def getRandomFrequency_def FREQUENCY_CHANNELS_def)
  have u: "\<not> polluted ?s" by (simp add: four_devices_state)
  note inst = frequency_write_once [of empty_state "''ABC''" "''d1''" 7 1 "fst ?p"
      "projr (snd ?p)" ?s "''ABC''" example_school "''ABC_1''" example_cluster]
  from inst r0 p fresh
  have a: "res_frequency (projr (snd ?p)) = getRandomFrequency 7" by blast
  from inst r e m obtain d where "get_cluster ?s ''ABC'' (show_nat (clusterNumber example_cluster)) = Inr d"
    and "cd_frequency d = frequency example_cluster" by blast
  with n have b: "map_sum id cd_frequency (get_cluster ?s ''ABC'' ''1'') =
      Inr (frequency example_cluster)" by simp
  from inst r e m u obtain sm where "get_school ?s ''ABC'' = Inr sm"
    and "map_option sum_frequency (map_of (ss_clusters sm) ''ABC_1'') =
      Some (frequency example_cluster)" by blast
  then have c: "map_option sum_frequency
      (map_of (ss_clusters (projr (get_school ?s ''ABC''))) ''ABC_1'') =
      Some (frequency example_cluster)" by simp
  from r0 p fresh a r e m n f b u c show ?thesis by simp
qed

text \<open>
  Capacity and routing as far as they hold on the code (clustered variant). In every
  reachable state no cluster holds more than
  \<open>MAX_DEVICES_PER_CLUSTER = 10\<close> devices, and the clusters are listed in creation order
  (increasing cluster number). When a placement of a device that no cluster of the school
  holds answers, the device went to the first cluster, in that order, with fewer than ten
  devices, appended to its device list; when every cluster is full (in particular for the
  11th device of a school with one full cluster) it went to a new cluster numbered
  \<open>lastClusterNumber + 1\<close>, appended after the existing ones; the cluster named in the
  answer was never a full one. The placement does answer whenever \<open>Object.prototype\<close> is
  unpolluted and the school code is an own key or no inherited name.
\<close>

theorem capacity_routing:
  assumes "reachable s"
  shows
   "(\<forall>(nm, c) \<in> set (clusters (current_school s sc)).
       length (devices c) \<le> MAX_DEVICES_PER_CLUSTER) \<and>
    sorted_wrt (<) (map (\<lambda>(nm, c). clusterNumber c) (clusters (current_school s sc))) \<and>
    (placeDevice s sc dev rnd now = (s', Inr r) \<longrightarrow>
     (\<forall>(nm, c) \<in> set (clusters (current_school s sc)). \<not> has_device c dev) \<longrightarrow>
       (\<forall>ys nm c zs. clusters (current_school s sc) = ys @ (nm, c) # zs \<longrightarrow>
          length (devices c) < MAX_DEVICES_PER_CLUSTER \<longrightarrow>
          (\<forall>(k, v) \<in> set ys. MAX_DEVICES_PER_CLUSTER \<le> length (devices v)) \<longrightarrow>
          res_clusterName r = nm \<and>
          clusters (current_school s' sc) = ys @ (nm, add_device c dev now) # zs) \<and>
       ((\<forall>(nm, c) \<in> set (clusters (current_school s sc)).
            MAX_DEVICES_PER_CLUSTER \<le> length (devices c)) \<longrightarrow>
          res_clusterNumber r = lastClusterNumber (current_school s sc) + 1 \<and>
          res_clusterName r = cluster_name sc (lastClusterNumber (current_school s sc) + 1) \<and>
          lastClusterNumber (current_school s' sc) = lastClusterNumber (current_school s sc) + 1 \<and>
          clusters (current_school s' sc) =
            clusters (current_school s sc) @
              [(cluster_name sc (lastClusterNumber (current_school s sc) + 1),
                add_device (new_cluster (lastClusterNumber (current_school s sc) + 1) rnd now)
                  dev now)]) \<and>
       (\<forall>c0. (res_clusterName r, c0) \<in> set (clusters (current_school s sc)) \<longrightarrow>
          length (devices c0) < MAX_DEVICES_PER_CLUSTER)) \<and>
    (\<not> polluted s \<longrightarrow> \<not> inherited_name sc \<or> schoolData s sc \<noteq> None \<longrightarrow>
       (\<exists>r. snd (placeDevice s sc dev rnd now) = Inr r))"
proof -
  note inv = reachable_state_inv [OF assms]
  note sinv = current_school_inv [OF inv, of sc]
  let ?cl = "clusters (current_school s sc)"
  have cap: "\<forall>(nm, c) \<in> set ?cl. length (devices c) \<le> MAX_DEVICES_PER_CLUSTER"
    using school_inv_cluster [OF sinv] by (auto simp: cluster_inv_def)
  have sorted: "sorted_wrt (<) (map (\<lambda>(nm, c). clusterNumber c) ?cl)"
    using sinv by (simp add: school_inv_def)
  have total: "\<not> polluted s \<longrightarrow> \<not> inherited_name sc \<or> schoolData s sc \<noteq> None \<longrightarrow>
       (\<exists>r. snd (placeDevice s sc dev rnd now) = Inr r)"
    using placeDevice_answers [OF inv] by blast
  have routing: "(\<forall>ys nm c zs. ?cl = ys @ (nm, c) # zs \<longrightarrow>
          length (devices c) < MAX_DEVICES_PER_CLUSTER \<longrightarrow>
          (\<forall>(k, v) \<in> set ys. MAX_DEVICES_PER_CLUSTER \<le> length (devices v)) \<longrightarrow>
          res_clusterName r = nm \<and>
          clusters (current_school s' sc) = ys @ (nm, add_device c dev now) # zs) \<and>
       ((\<forall>(nm, c) \<in> set ?cl. MAX_DEVICES_PER_CLUSTER \<le> length (devices c)) \<longrightarrow>
          res_clusterNumber r = lastClusterNumber (current_school s sc) + 1 \<and>
          res_clusterName r = cluster_name sc (lastClusterNumber (current_school s sc) + 1) \<and>
          lastClusterNumber (current_school s' sc) = lastClusterNumber (current_school s sc) + 1 \<and>
          clusters (current_school s' sc) =
            ?cl @ [(cluster_name sc (lastClusterNumber (current_school s sc) + 1),
                add_device (new_cluster (lastClusterNumber (current_school s sc) + 1) rnd now)
                  dev now)]) \<and>
       (\<forall>c0. (res_clusterName r, c0) \<in> set ?cl \<longrightarrow>
          length (devices c0) < MAX_DEVICES_PER_CLUSTER)"
    if place: "placeDevice s sc dev rnd now = (s', Inr r)"
      and new: "\<forall>(nm, c) \<in> set ?cl. \<not> has_device c dev"
    using inv
  proof (cases rule: placeDevice_cases [where sc = sc and dev = dev and rnd = rnd and now = now])
    case inherited
    with place show ?thesis by (simp split: if_splits)
  next
    case polluted
    with place show ?thesis by simp
  next
    case (existing nm c ys zs)
    with new show ?thesis by auto
  next
    case (space nm c ys zs)
    from space place have s': "current_school s' sc = placed (current_school s sc) nm (add_device c dev now)"
      and r: "r = compose_response sc dev nm (add_device c dev now)
                    (totalDevices (current_school s sc) + 1)"
      by auto
    have first: "res_clusterName r = nm' \<and>
        clusters (current_school s' sc) = ys' @ (nm', add_device c' dev now) # zs'"
      if "?cl = ys' @ (nm', c') # zs'" "length (devices c') < MAX_DEVICES_PER_CLUSTER"
        "\<forall>(k, v) \<in> set ys'. MAX_DEVICES_PER_CLUSTER \<le> length (devices v)"
      for ys' nm' c' zs'
    proof -
      have "ys = ys' \<and> (nm, c) = (nm', c') \<and> zs = zs'"
        using that space(4-6)
        by (intro first_split_unique
              [where P = "\<lambda>(k, v). length (devices v) < MAX_DEVICES_PER_CLUSTER"])
           (auto simp: not_less)
      with space(7) s' r show ?thesis by simp
    qed
    have not_full: "\<not> (\<forall>(nm, c) \<in> set ?cl. MAX_DEVICES_PER_CLUSTER \<le> length (devices c))"
      using space(4,5) by auto
    have chosen: "length (devices c0) < MAX_DEVICES_PER_CLUSTER"
      if "(res_clusterName r, c0) \<in> set ?cl" for c0
    proof -
      from space(4) have "(nm, c) \<in> set ?cl" by simp
      from school_inv_same_name [OF sinv this, of c0] that r space(5) show ?thesis by simp
    qed
    from first not_full chosen show ?thesis by blast
  next
    case (fresh n c)
    from fresh place have s': "current_school s' sc =
        placed (current_school s sc\<lparr>lastClusterNumber := n\<rparr>) (cluster_name sc n) c"
      and r: "r = compose_response sc dev (cluster_name sc n) c
                    (totalDevices (current_school s sc) + 1)"
      by auto
    have no_first: "False"
      if "?cl = ys' @ (nm', c') # zs'" "length (devices c') < MAX_DEVICES_PER_CLUSTER"
      for ys' nm' c' zs'
      using that fresh(4) by auto
    have created: "res_clusterNumber r = lastClusterNumber (current_school s sc) + 1 \<and>
          res_clusterName r = cluster_name sc (lastClusterNumber (current_school s sc) + 1) \<and>
          lastClusterNumber (current_school s' sc) = lastClusterNumber (current_school s sc) + 1 \<and>
          clusters (current_school s' sc) =
            ?cl @ [(cluster_name sc (lastClusterNumber (current_school s sc) + 1),
                add_device (new_cluster (lastClusterNumber (current_school s sc) + 1) rnd now)
                  dev now)]"
      using fresh(5-7) s' r by (simp add: add_device_simps new_cluster_def)
    have chosen: "length (devices c0) < MAX_DEVICES_PER_CLUSTER"
      if "(res_clusterName r, c0) \<in> set ?cl" for c0
      using that r fresh(5) cluster_name_fresh [OF sinv] by force
    from no_first created chosen show ?thesis by blast
  qed
  from cap sorted routing total show ?thesis by blast
qed

theorem capacity_routing_witness:
  "reachable (run empty_state ten_devices) \<and>
   placeDevice (run empty_state ten_devices) ''S'' ''t10'' 3 10 =
     (fst (placeDevice (run empty_state ten_devices) ''S'' ''t10'' 3 10),
      Inr (projr (snd (placeDevice (run empty_state ten_devices) ''S'' ''t10'' 3 10)))) \<and>
   clusters (current_school (run empty_state ten_devices) ''S'') = [(''S_1'', full_cluster)] \<and>
   \<not> has_device full_cluster ''t10'' \<and>
   length (devices full_cluster) = MAX_DEVICES_PER_CLUSTER \<and>
   lastClusterNumber (current_school (run empty_state ten_devices) ''S'') = 1 \<and>
   res_clusterNumber (projr (snd (placeDevice (run empty_state ten_devices) ''S'' ''t10'' 3 10))) = 2 \<and>
   res_clusterName (projr (snd (placeDevice (run empty_state ten_devices) ''S'' ''t10'' 3 10))) =
     ''S_2''"
proof -
  let ?s = "run empty_state ten_devices"
  let ?p = "placeDevice ?s ''S'' ''t10'' 3 10"
  have r: "reachable ?s" by (rule reachable_run [OF reachable_empty])
  have cl: "clusters (current_school ?s ''S'') = [(''S_1'', full_cluster)]"
    and last: "lastClusterNumber (current_school ?s ''S'') = 1"
    by (simp_all add: full_state current_school_def full_school_def)
  have nd: "\<not> has_device full_cluster ''t10''"
    by (simp add: has_device_def full_cluster_def)
  have full: "length (devices full_cluster) = MAX_DEVICES_PER_CLUSTER"
    by (simp add: full_cluster_def MAX_DEVICES_PER_CLUSTER_def)
  have "\<not> isl (snd ?p)"
    unfolding full_state by (simp add: eval_defs full_school_def full_cluster_def)
  then have p: "?p = (fst ?p, Inr (projr (snd ?p)))"
    by (simp add: prod_eq_iff)
  from capacity_routing [OF r, of "''S''" "''t10''" 3 10 "fst ?p" "projr (snd ?p)"] p cl nd full last
  have "res_clusterNumber (projr (snd ?p)) = 2 \<and>
      res_clusterName (projr (snd ?p)) = cluster_name ''S'' 2"
    by (simp add: numeral_2_eq_2)
  then have "res_clusterNumber (projr (snd ?p)) = 2"
    and "res_clusterName (projr (snd ?p)) = ''S_2''"
    by (simp_all add: cluster_name_def show_nat_digit digit_char_def)
  with r p cl nd full last show ?thesis by simp
qed

text \<open>
  Claim C2. In every reachable state, a registration followed at once by the same
  registration (same \<open>schoolCode\<close> and \<open>deviceId\<close>, any random draw and clock) gives the
  same reply twice, role, position and host list included, and the second call leaves the
  state as the first one left it; so across the two calls every device list grows by at
  most one entry. Both variants.
\<close>

theorem placement_idempotent:
  "(reachable s \<longrightarrow>
      post_get_hosts s (Some sc) (Some dev) rnd now = (s1, out1) \<longrightarrow>
      post_get_hosts s1 (Some sc) (Some dev) rnd' now' = (s2, out2) \<longrightarrow>
        out2 = out1 \<and> s2 = s1 \<and>
        (\<forall>sc' nm. length (devices_of s2 sc' nm) \<le> length (devices_of s sc' nm) + 1)) \<and>
   (flat_reachable fs \<longrightarrow>
      flat_post_get_hosts fs (Some sc) (Some dev) now = (fs1, fout1) \<longrightarrow>
      flat_post_get_hosts fs1 (Some sc) (Some dev) now' = (fs2, fout2) \<longrightarrow>
        fout2 = fout1 \<and> fs2 = fs1 \<and>
        (\<forall>sc'. length (flat_devices_of fs2 sc') \<le> length (flat_devices_of fs sc') + 1))"
proof (intro conjI impI allI)
  assume r: "reachable s" and one: "post_get_hosts s (Some sc) (Some dev) rnd now = (s1, out1)"
    and two: "post_get_hosts s1 (Some sc) (Some dev) rnd' now' = (s2, out2)"
  note inv = reachable_state_inv [OF r]
  have both: "out2 = out1 \<and> s2 = s1"
  proof (cases "falsy (Some sc) \<or> falsy (Some dev)")
    case True
    with one two show ?thesis by (simp add: post_get_hosts_cases)
  next
    case False
    with one have "placeDevice s sc dev rnd now = (s1, out1)"
      by (simp add: post_get_hosts_cases)
    from placeDevice_twice [OF inv this, of rnd' now'] two False show ?thesis
      by (simp add: post_get_hosts_cases)
  qed
  then show "out2 = out1" and "s2 = s1" by simp_all
  fix sc' nm
  show "length (devices_of s2 sc' nm) \<le> length (devices_of s sc' nm) + 1"
  proof (cases "falsy (Some sc) \<or> falsy (Some dev)")
    case True
    with one both show ?thesis by (simp add: post_get_hosts_cases)
  next
    case False
    with one have "placeDevice s sc dev rnd now = (s1, out1)"
      by (simp add: post_get_hosts_cases)
    from placeDevice_devices_of [OF inv this, of sc' nm] both show ?thesis by auto
  qed
next
  assume one: "flat_post_get_hosts fs (Some sc) (Some dev) now = (fs1, fout1)"
    and two: "flat_post_get_hosts fs1 (Some sc) (Some dev) now' = (fs2, fout2)"
  have both: "fout2 = fout1 \<and> fs2 = fs1"
  proof (cases "falsy (Some sc) \<or> falsy (Some dev)")
    case True
    with one two show ?thesis by (simp add: flat_post_get_hosts_cases)
  next
    case False
    with one have "flat_placeDevice fs sc dev now = (fs1, fout1)"
      by (simp add: flat_post_get_hosts_cases)
    from flat_placeDevice_twice [OF this, of now'] two False show ?thesis
      by (simp add: flat_post_get_hosts_cases)
  qed
  then show "fout2 = fout1" and "fs2 = fs1" by simp_all
  fix sc'
  show "length (flat_devices_of fs2 sc') \<le> length (flat_devices_of fs sc') + 1"
  proof (cases "falsy (Some sc) \<or> falsy (Some dev)")
    case True
    with one both show ?thesis by (simp add: flat_post_get_hosts_cases)
  next
    case False
    with one have "flat_placeDevice fs sc dev now = (fs1, fout1)"
      by (simp add: flat_post_get_hosts_cases)
    from flat_placeDevice_devices_of [OF this, of sc'] both show ?thesis by auto
  qed
qed

theorem placement_idempotent_witness:
  "reachable (run empty_state four_devices) \<and>
   flat_reachable (flat_run flat_empty_state flat_four_devices) \<and>
   snd (post_get_hosts (fst (post_get_hosts (run empty_state four_devices)
          (Some ''ABC'') (Some ''d7'') 1 5)) (Some ''ABC'') (Some ''d7'') 2 6) =
     snd (post_get_hosts (run empty_state four_devices) (Some ''ABC'') (Some ''d7'') 1 5) \<and>
   fst (post_get_hosts (fst (post_get_hosts (run empty_state four_devices)
          (Some ''ABC'') (Some ''d7'') 1 5)) (Some ''ABC'') (Some ''d7'') 2 6) =
     fst (post_get_hosts (run empty_state four_devices) (Some ''ABC'') (Some ''d7'') 1 5) \<and>
   map_sum id (\<lambda>r. (role (res_role r), positionInCluster r))
     (snd (post_get_hosts (run empty_state four_devices) (Some ''ABC'') (Some ''d7'') 1 5)) =
     Inr (client, 5) \<and>
   snd (flat_post_get_hosts (fst (flat_post_get_hosts
          (flat_run flat_empty_state flat_four_devices) (Some ''ABC'') (Some ''d7'') 5))
          (Some ''ABC'') (Some ''d7'') 6) =
     snd (flat_post_get_hosts (flat_run flat_empty_state flat_four_devices)
          (Some ''ABC'') (Some ''d7'') 5) \<and>
   map_sum id (\<lambda>r. (role (fr_role r), fr_position r))
     (snd (flat_post_get_hosts (flat_run flat_empty_state flat_four_devices)
          (Some ''ABC'') (Some ''d7'') 5)) =
     Inr (client, 5)"
proof -
  let ?s = "run empty_state four_devices"
  let ?one = "post_get_hosts ?s (Some ''ABC'') (Some ''d7'') 1 5"
  let ?two = "post_get_hosts (fst ?one) (Some ''ABC'') (Some ''d7'') 2 6"
  let ?fs = "flat_run flat_empty_state flat_four_devices"
  let ?fone = "flat_post_get_hosts ?fs (Some ''ABC'') (Some ''d7'') 5"
  let ?ftwo = "flat_post_get_hosts (fst ?fone) (Some ''ABC'') (Some ''d7'') 6"
  have r: "reachable ?s" by (rule reachable_run [OF reachable_empty])
  have fr: "flat_reachable ?fs" by (rule flat_reachable_run [OF flat_reachable_empty])
  from placement_idempotent [of ?s "''ABC''" "''d7''" 1 5 "fst ?one" "snd ?one" 2 6
      "fst ?two" "snd ?two" ?fs "fst ?fone" "snd ?fone" "fst ?ftwo" "snd ?ftwo"] r fr
  have same: "snd ?two = snd ?one \<and> fst ?two = fst ?one \<and> snd ?ftwo = snd ?fone"
    by simp
  have v: "map_sum id (\<lambda>r. (role (res_role r), positionInCluster r)) (snd ?one) = Inr (client, 5)"
    unfolding four_devices_state
    by (simp add: eval_defs example_school_def example_cluster_def)
  have fv: "map_sum id (\<lambda>r. (role (fr_role r), fr_position r)) (snd ?fone) = Inr (client, 5)"
    unfolding flat_four_devices_state
    by (simp add: eval_defs example_flat_school_def)
  from r fr same v fv show ?thesis by simp
qed

text \<open>
  Claim C3 fails on the code (clustered variant): after a registration for the school
  code \<open>__proto__\<close>, which stores \<open>lastClusterNumber = NaN\<close> on \<open>Object.prototype\<close>, a newly
  seen device of school \<open>ABC\<close> is not placed at all, although the only cluster \<open>ABC_1\<close>
  holds one device: the handler throws while scanning the clusters and answers 500,
  leaving the state as it was. The state is reachable by two requests.
\<close>

theorem new_device_not_placed_after_proto_request:
  "reachable (run empty_state polluting_requests) \<and>
   map (\<lambda>(nm, c). (nm, map deviceId (devices c)))
     (clusters (current_school (run empty_state polluting_requests) ''ABC'')) =
     [(''ABC_1'', [''d1''])] \<and>
   post_get_hosts (run empty_state polluting_requests) (Some ''ABC'') (Some ''d2'') rnd now =
     (run empty_state polluting_requests, Inl InternalError)"
proof -
  have "reachable (run empty_state polluting_requests)"
    by (rule reachable_run [OF reachable_empty])
  moreover have "map (\<lambda>(nm, c). (nm, map deviceId (devices c)))
     (clusters (current_school (run empty_state polluting_requests) ''ABC'')) =
     [(''ABC_1'', [''d1''])]"
    unfolding polluting_requests_state by (simp add: current_school_def)
  moreover have "post_get_hosts (run empty_state polluting_requests) (Some ''ABC'') (Some ''d2'')
      rnd now = (run empty_state polluting_requests, Inl InternalError)"
    unfolding polluting_requests_state by (simp add: eval_defs)
  ultimately show ?thesis by simp
qed

text \<open>
  The role table as far as it holds on the code (both variants). A placement that answers
  in a reachable state names a device list in which the device stands at some index \<open>i\<close>,
  first with its \<open>deviceId\<close>; the position is \<open>i + 1\<close>, the role fields are row \<open>i\<close>
  of the table, a host slot beyond the host list is null, the hosts are the first three
  devices, and a newly seen device stands last. Requests about other school codes before
  the placement do not change its answer: in the flat variant it answers the same, in the
  clustered variant it answers the same if it answers. A placement answers when the school
  code is an own key or no inherited name and, in the clustered variant,
  \<open>Object.prototype\<close> is unpolluted.
\<close>

theorem placement_follows_role_table:
  "(reachable s \<longrightarrow> placeDevice s sc dev rnd now = (s', Inr r) \<longrightarrow>
      (\<exists>c. map_of (clusters (current_school s' sc)) (res_clusterName r) = Some c \<and>
           follows_table dev (devices c) (hosts c) (positionInCluster r) (res_role r)
             (clusterHosts r) \<and>
           hosts c = map deviceId (take 3 (devices c)) \<and>
           distinct (map deviceId (devices c)) \<and>
           ((\<forall>(nm, c0) \<in> set (clusters (current_school s sc)). \<not> has_device c0 dev) \<longrightarrow>
              positionInCluster r = int (length (devices c)))) \<and>
      (\<forall>qs t' r2. (\<forall>q\<in>set qs. request_school q \<noteq> Some sc) \<longrightarrow>
         placeDevice (run s qs) sc dev rnd now = (t', Inr r2) \<longrightarrow> r2 = r)) \<and>
   (flat_reachable fs \<longrightarrow> flat_placeDevice fs sc dev now = (fs', Inr fr) \<longrightarrow>
      follows_table dev (school_devices (flat_current_school fs' sc))
        (school_hosts (flat_current_school fs' sc)) (fr_position fr) (fr_role fr) (fr_hosts fr) \<and>
      school_hosts (flat_current_school fs' sc) =
        map deviceId (take 3 (school_devices (flat_current_school fs' sc))) \<and>
      distinct (map deviceId (school_devices (flat_current_school fs' sc))) \<and>
      (\<not> flat_has_device (flat_current_school fs sc) dev \<longrightarrow>
         fr_position fr = int (length (school_devices (flat_current_school fs' sc)))) \<and>
      (\<forall>qs. (\<forall>q\<in>set qs. flat_request_school q \<noteq> Some sc) \<longrightarrow>
         snd (flat_placeDevice (flat_run fs qs) sc dev now) = Inr fr)) \<and>
   (reachable s \<longrightarrow> \<not> polluted s \<longrightarrow> \<not> inherited_name sc \<or> schoolData s sc \<noteq> None \<longrightarrow>
      (\<exists>r. snd (placeDevice s sc dev rnd now) = Inr r)) \<and>
   (\<not> inherited_name sc \<or> flat_schoolData fs sc \<noteq> None \<longrightarrow>
      (\<exists>r. snd (flat_placeDevice fs sc dev now) = Inr r))"
proof -
  have one: "(\<exists>c. map_of (clusters (current_school s' sc)) (res_clusterName r) = Some c \<and>
           follows_table dev (devices c) (hosts c) (positionInCluster r) (res_role r)
             (clusterHosts r) \<and>
           hosts c = map deviceId (take 3 (devices c)) \<and>
           distinct (map deviceId (devices c)) \<and>
           ((\<forall>(nm, c0) \<in> set (clusters (current_school s sc)). \<not> has_device c0 dev) \<longrightarrow>
              positionInCluster r = int (length (devices c)))) \<and>
      (\<forall>qs t' r2. (\<forall>q\<in>set qs. request_school q \<noteq> Some sc) \<longrightarrow>
         placeDevice (run s qs) sc dev rnd now = (t', Inr r2) \<longrightarrow> r2 = r)"
    if reach: "reachable s" and place: "placeDevice s sc dev rnd now = (s', Inr r)"
  proof -
    note inv = reachable_state_inv [OF reach]
    have "r2 = r"
      if "\<forall>q\<in>set qs. request_school q \<noteq> Some sc"
        and "placeDevice (run s qs) sc dev rnd now = (t', Inr r2)" for qs t' r2
      by (rule placeDevice_same_answer [OF run_frame [OF inv that(1)] place that(2)])
    with placeDevice_follows_table [OF inv place] show ?thesis by blast
  qed
  have two: "follows_table dev (school_devices (flat_current_school fs' sc))
        (school_hosts (flat_current_school fs' sc)) (fr_position fr) (fr_role fr) (fr_hosts fr) \<and>
      school_hosts (flat_current_school fs' sc) =
        map deviceId (take 3 (school_devices (flat_current_school fs' sc))) \<and>
      distinct (map deviceId (school_devices (flat_current_school fs' sc))) \<and>
      (\<not> flat_has_device (flat_current_school fs sc) dev \<longrightarrow>
         fr_position fr = int (length (school_devices (flat_current_school fs' sc)))) \<and>
      (\<forall>qs. (\<forall>q\<in>set qs. flat_request_school q \<noteq> Some sc) \<longrightarrow>
         snd (flat_placeDevice (flat_run fs qs) sc dev now) = Inr fr)"
    if reach: "flat_reachable fs" and place: "flat_placeDevice fs sc dev now = (fs', Inr fr)"
  proof -
    note inv = flat_reachable_state_inv [OF reach]
    have "snd (flat_placeDevice (flat_run fs qs) sc dev now) = Inr fr"
      if "\<forall>q\<in>set qs. flat_request_school q \<noteq> Some sc" for qs
      using flat_placeDevice_same_answer [OF flat_run_frame [OF that], of fs dev now] place
      by simp
    with flat_placeDevice_follows_table [OF inv place] show ?thesis by blast
  qed
  have three: "\<exists>r. snd (placeDevice s sc dev rnd now) = Inr r"
    if "reachable s" and "\<not> polluted s" and "\<not> inherited_name sc \<or> schoolData s sc \<noteq> None"
    by (rule placeDevice_answers [OF reachable_state_inv [OF that(1)] that(2,3)])
  have four: "\<exists>r. snd (flat_placeDevice fs sc dev now) = Inr r"
    if "\<not> inherited_name sc \<or> flat_schoolData fs sc \<noteq> None"
    by (rule flat_placeDevice_answers [OF that])
  from one two three four show ?thesis by blast
qed

theorem placement_follows_role_table_witness:
  "reachable (run empty_state four_devices) \<and>
   placeDevice (run empty_state four_devices) ''ABC'' ''d6'' 7 5 =
     (fst (placeDevice (run empty_state four_devices) ''ABC'' ''d6'' 7 5),
      Inr (projr (snd (placeDevice (run empty_state four_devices) ''ABC'' ''d6'' 7 5)))) \<and>
   clusters (current_school (run empty_state four_devices) ''ABC'') =
     [(''ABC_1'', example_cluster)] \<and>
   \<not> has_device example_cluster ''d6'' \<and>
   positionInCluster (projr (snd (placeDevice (run empty_state four_devices) ''ABC'' ''d6'' 7 5))) = 5 \<and>
   res_role (projr (snd (placeDevice (run empty_state four_devices) ''ABC'' ''d6'' 7 5))) =
     role_table 4 ''d6'' [''d1'', ''d2'', ''d4''] \<and>
   request_school (PostGetHosts (Some ''XYZ'') (Some ''q'') 3 9) \<noteq> Some ''ABC'' \<and>
   snd (placeDevice (run (run empty_state four_devices) [PostGetHosts (Some ''XYZ'') (Some ''q'') 3 9])
          ''ABC'' ''d6'' 7 5) =
     snd (placeDevice (run empty_state four_devices) ''ABC'' ''d6'' 7 5) \<and>
   flat_reachable (flat_run flat_empty_state flat_four_devices) \<and>
   flat_placeDevice (flat_run flat_empty_state flat_four_devices) ''ABC'' ''d6'' 5 =
     (fst (flat_placeDevice (flat_run flat_empty_state flat_four_devices) ''ABC'' ''d6'' 5),
      Inr (projr (snd (flat_placeDevice (flat_run flat_empty_state flat_four_devices) ''ABC'' ''d6'' 5)))) \<and>
   \<not> flat_has_device (flat_current_school (flat_run flat_empty_state flat_four_devices) ''ABC'') ''d6'' \<and>
   fr_position (projr (snd (flat_placeDevice (flat_run flat_empty_state flat_four_devices) ''ABC'' ''d6'' 5))) = 5 \<and>
   flat_request_school (FlatPostGetHosts (Some ''XYZ'') (Some ''q'') 9) \<noteq> Some ''ABC'' \<and>
   snd (flat_placeDevice
          (flat_run (flat_run flat_empty_state flat_four_devices)
             [FlatPostGetHosts (Some ''XYZ'') (Some ''q'') 9]) ''ABC'' ''d6'' 5) =
     snd (flat_placeDevice (flat_run flat_empty_state flat_four_devices) ''ABC'' ''d6'' 5)"
proof -
  let ?s = "run empty_state four_devices"
  let ?p = "placeDevice ?s ''ABC'' ''d6'' 7 5"
  let ?q = "PostGetHosts (Some ''XYZ'') (Some ''q'') 3 9"
  let ?p2 = "placeDevice (run ?s [?q]) ''ABC'' ''d6'' 7 5"
  let ?fs = "flat_run flat_empty_state flat_four_devices"
  let ?fp = "flat_placeDevice ?fs ''ABC'' ''d6'' 5"
  let ?fq = "FlatPostGetHosts (Some ''XYZ'') (Some ''q'') 9"
  note inst = placement_follows_role_table [of ?s "''ABC''" "''d6''" 7 5 "fst ?p"
      "projr (snd ?p)" ?fs "fst ?fp" "projr (snd ?fp)"]
  have r: "reachable ?s" by (rule reachable_run [OF reachable_empty])
  have "\<not> isl (snd ?p)"
    unfolding four_devices_state by (simp add: eval_defs example_school_def example_cluster_def)
  then have p: "?p = (fst ?p, Inr (projr (snd ?p)))" by (simp add: prod_eq_iff)
  have cl: "clusters (current_school ?s ''ABC'') = [(''ABC_1'', example_cluster)]"
    by (simp add: four_devices_state current_school_def example_school_def)
  have nd: "\<not> has_device example_cluster ''d6''"
    by (simp add: has_device_def example_cluster_def)
  have stored: "map_of (clusters (current_school (fst ?p) ''ABC'')) (res_clusterName (projr (snd ?p))) =
      Some (add_device example_cluster ''d6'' 5)"
    unfolding four_devices_state
    by (simp add: eval_defs example_school_def example_cluster_def current_school_def placed_def)
  from inst r p cl nd obtain c
    where c: "map_of (clusters (current_school (fst ?p) ''ABC'')) (res_clusterName (projr (snd ?p))) =
        Some c"
      and ft: "follows_table ''d6'' (devices c) (hosts c) (positionInCluster (projr (snd ?p)))
        (res_role (projr (snd ?p))) (clusterHosts (projr (snd ?p)))"
      and pos: "positionInCluster (projr (snd ?p)) = int (length (devices c))"
    by auto
  from c stored have ceq: "c = add_device example_cluster ''d6'' 5" by simp
  with pos have pos5: "positionInCluster (projr (snd ?p)) = 5"
    by (simp add: add_device_def example_cluster_def Let_def)
  from ft pos5 have "res_role (projr (snd ?p)) = role_table 4 ''d6'' (hosts c)"
    unfolding follows_table_def by auto
  with ceq have role: "res_role (projr (snd ?p)) = role_table 4 ''d6'' [''d1'', ''d2'', ''d4'']"
    by (simp add: add_device_def example_cluster_def Let_def MAX_HOSTS_PER_CLUSTER_def)
  have q: "request_school ?q \<noteq> Some ''ABC''" by simp
  have "\<not> isl (snd ?p2)"
    unfolding four_devices_state
    by (simp add: run_def eval_defs example_school_def example_cluster_def)
  then have p2: "?p2 = (fst ?p2, Inr (projr (snd ?p2)))" by (simp add: prod_eq_iff)
  note frame = mp [OF mp [OF conjunct1 [OF inst] r] p, THEN conjunct2, rule_format, of "[?q]"]
  from frame [OF _ p2] q have "projr (snd ?p2) = projr (snd ?p)" by simp
  with p p2 have same: "snd ?p2 = snd ?p" by (metis snd_conv)
  have fr: "flat_reachable ?fs" by (rule flat_reachable_run [OF flat_reachable_empty])
  have "\<not> isl (snd ?fp)"
    unfolding flat_four_devices_state by (simp add: eval_defs example_flat_school_def)
  then have fp: "?fp = (fst ?fp, Inr (projr (snd ?fp)))" by (simp add: prod_eq_iff)
  have fnd: "\<not> flat_has_device (flat_current_school ?fs ''ABC'') ''d6''"
    unfolding flat_four_devices_state
    by (simp add: flat_has_device_def flat_current_school_def example_flat_school_def)
  have flen: "length (school_devices (flat_current_school (fst ?fp) ''ABC'')) = 5"
    unfolding flat_four_devices_state
    by (simp add: eval_defs flat_current_school_def example_flat_school_def)
  from mp [OF mp [OF conjunct1 [OF conjunct2 [OF inst]] fr] fp] fnd flen
  have fpos: "fr_position (projr (snd ?fp)) = 5" by simp
  have fq: "flat_request_school ?fq \<noteq> Some ''ABC''" by simp
  note fbody = mp [OF mp [OF conjunct1 [OF conjunct2 [OF inst]] fr] fp]
  from fbody have "\<forall>qs. (\<forall>q\<in>set qs. flat_request_school q \<noteq> Some ''ABC'') \<longrightarrow>
      snd (flat_placeDevice (flat_run ?fs qs) ''ABC'' ''d6'' 5) = Inr (projr (snd ?fp))"
    by blast
  from this [rule_format, of "[?fq]"] fq
  have "snd (flat_placeDevice (flat_run ?fs [?fq]) ''ABC'' ''d6'' 5) = Inr (projr (snd ?fp))"
    by simp
  with fp have fsame: "snd (flat_placeDevice (flat_run ?fs [?fq]) ''ABC'' ''d6'' 5) = snd ?fp"
    by (metis snd_conv)
  from r p cl nd pos5 role q same fr fp fnd fpos fq fsame show ?thesis by simp
qed

text \<open>
  Claim C1 fails on the code (clustered variant): the role of the second distinct device
  of a school depends on an interleaved call for another school code. Served alone, \<open>d1\<close>
  and \<open>d2\<close> of school \<open>ABC\<close> are answered \<open>host1\<close> and \<open>host2\<close>; with a registration for
  the school code \<open>__proto__\<close> in between, the registration of \<open>d2\<close> answers 500 and \<open>d2\<close>
  gets no role.
\<close>

theorem role_depends_on_interleaved_proto_request:
  "map (map_option (\<lambda>r. (res_deviceId r, role (res_role r))) \<circ> placement_of)
     (replies empty_state two_devices) = [Some (''d1'', host1), Some (''d2'', host2)] \<and>
   replies empty_state two_devices_interleaved ! 2 = Inl InternalError \<and>
   map (map_option (\<lambda>r. (res_deviceId r, role (res_role r))) \<circ> placement_of)
     (replies empty_state two_devices_interleaved) = [Some (''d1'', host1), None, None]"
  by (simp add: two_devices_def two_devices_interleaved_def eval_defs)

end
